theory Spec2Isabelle
  imports Main "HOL-Library.Sublist" "HOL-Library.Char_ord" "HOL-Library.List_Lexorder"
begin

section \<open>Link maintenance tools of doc/Structure\<close>

text \<open>
  The repository keeps a corpus of Zim wiki pages (one \<^verbatim>\<open>.txt\<close> file per grammar
  production) under \<^verbatim>\<open>doc/Structure\<close> and five Python scripts that check and repair the
  \<^verbatim>\<open>[[target|label]]\<close> links between the pages:
  \<^verbatim>\<open>verify_forward_links.py\<close>, \<^verbatim>\<open>verify_backlinks.py\<close>, \<^verbatim>\<open>fix_all_links.py\<close>,
  \<^verbatim>\<open>check_links.py\<close> and \<^verbatim>\<open>find_broken_links.py\<close>.

  This theory embeds the scripts function by function.  Python strings are
  \<^typ>\<open>string\<close>; a \<^verbatim>\<open>pathlib.Path\<close> is the list of its \<^verbatim>\<open>parts\<close>; the file
  system is read through two parameters, the predicate \<open>ex\<close> (\<^verbatim>\<open>Path.exists\<close>) and the
  store (the text \<^verbatim>\<open>open(p).read()\<close> returns), and written by updating the store;
  a Python exception is the left summand of a result.
\<close>

subsection \<open>Python strings\<close>

text \<open>\<^verbatim>\<open>s.split(c)\<close> for a one-character separator: always at least one piece.\<close>

fun split_on :: "char \<Rightarrow> string \<Rightarrow> string list" where
  "split_on c [] = [[]]"
| "split_on c (x # xs) =
     (if x = c then [] # split_on c xs
      else (case split_on c xs of
              [] \<Rightarrow> [[x]]
            | p # ps \<Rightarrow> (x # p) # ps))"

text \<open>\<^verbatim>\<open>s.replace(a, b)\<close> for one-character \<open>a\<close> and \<open>b\<close>.\<close>

definition replace_char :: "char \<Rightarrow> char \<Rightarrow> string \<Rightarrow> string" where
  "replace_char a b s = map (\<lambda>x. if x = a then b else x) s"

text \<open>\<^verbatim>\<open>sep.join(parts)\<close>.\<close>

fun join_with :: "string \<Rightarrow> string list \<Rightarrow> string" where
  "join_with sep [] = []"
| "join_with sep [p] = p"
| "join_with sep (p # q # ps) = p @ sep @ join_with sep (q # ps)"

text \<open>
  \<^verbatim>\<open>s.find(pat)\<close>: the index of the first occurrence of \<open>pat\<close> in \<open>s\<close>, \<open>None\<close> for
  Python's \<open>-1\<close>.  It is also where \<^verbatim>\<open>re.search\<close> of a literal pattern starts.
\<close>

fun find_sub :: "string \<Rightarrow> string \<Rightarrow> nat option" where
  "find_sub pat [] = (if pat = [] then Some 0 else None)"
| "find_sub pat (c # cs) =
     (if prefix pat (c # cs) then Some 0 else map_option Suc (find_sub pat cs))"

text \<open>\<^verbatim>\<open>s.rfind(c)\<close>: the index of the last occurrence of the character.\<close>

definition rfind :: "char \<Rightarrow> string \<Rightarrow> nat option" where
  "rfind c s =
     (if c \<in> set s then Some (length s - 1 - length (takeWhile (\<lambda>x. x \<noteq> c) (rev s)))
      else None)"

text \<open>
  \<^verbatim>\<open>str.isspace\<close>, \<^verbatim>\<open>str.strip()\<close> and \<^verbatim>\<open>str.lower()\<close> on the code points below 256.
\<close>

definition py_isspace :: "char \<Rightarrow> bool" where
  "py_isspace c \<longleftrightarrow>
     (of_char c :: nat) \<in> {9, 10, 11, 12, 13, 28, 29, 30, 31, 32, 133, 160}"

definition strip :: "string \<Rightarrow> string" where
  "strip s = rev (dropWhile py_isspace (rev (dropWhile py_isspace s)))"

definition lower_char :: "char \<Rightarrow> char" where
  "lower_char c =
     (let n = (of_char c :: nat) in
      if (65 \<le> n \<and> n \<le> 90) \<or> (192 \<le> n \<and> n \<le> 222 \<and> n \<noteq> 215)
      then char_of (n + 32) else c)"

definition lower :: "string \<Rightarrow> string" where
  "lower s = map lower_char s"

text \<open>\<^verbatim>\<open>pat in s\<close> for strings.\<close>

definition contains :: "string \<Rightarrow> string \<Rightarrow> bool" where
  "contains pat s \<longleftrightarrow> find_sub pat s \<noteq> None"

subsection \<open>pathlib\<close>

text \<open>
  A \<^verbatim>\<open>PurePosixPath\<close> is its tuple of \<^verbatim>\<open>parts\<close>: for an absolute path the first
  part is the root, \<^verbatim>\<open>/\<close> (or \<^verbatim>\<open>//\<close> when the text starts with exactly two
  slashes).  Parsing a string drops empty segments and the segment \<^verbatim>\<open>.\<close>; the
  segment \<^verbatim>\<open>..\<close> is kept.  The definitions follow CPython 3.4 to 3.13.
\<close>

type_synonym path = "string list"

definition path_root :: "string \<Rightarrow> string list" where
  "path_root s =
     (if prefix ''//'' s \<and> \<not> prefix ''///'' s then [''//'']
      else if prefix ''/'' s then [''/'']
      else [])"

definition path_segments :: "string \<Rightarrow> string list" where
  "path_segments s = filter (\<lambda>seg. seg \<noteq> [] \<and> seg \<noteq> ''.'') (split_on CHR ''/'' s)"

text \<open>\<^verbatim>\<open>p / s\<close>: an absolute \<open>s\<close> replaces \<open>p\<close>.\<close>

definition path_div :: "path \<Rightarrow> string \<Rightarrow> path" where
  "path_div p s =
     (if path_root s \<noteq> [] then path_root s @ path_segments s
      else p @ path_segments s)"

definition is_anchor :: "path \<Rightarrow> bool" where
  "is_anchor p \<longleftrightarrow> p = [''/''] \<or> p = [''//'']"

text \<open>\<^verbatim>\<open>p.parent\<close>: the root and the empty relative path are their own parent.\<close>

definition parent :: "path \<Rightarrow> path" where
  "parent p = (if is_anchor p then p else butlast p)"

text \<open>\<^verbatim>\<open>p.name\<close>: the last part, empty for the root and the empty path.\<close>

definition path_name :: "path \<Rightarrow> string" where
  "path_name p = (if p = [] \<or> is_anchor p then [] else last p)"

text \<open>
  \<^verbatim>\<open>suffix\<close> and \<^verbatim>\<open>stem\<close> of a file name: the suffix starts at the last dot, unless
  that dot is the first or the last character of the name.
\<close>

definition name_suffix :: "string \<Rightarrow> string" where
  "name_suffix name =
     (case rfind CHR ''.'' name of
        None \<Rightarrow> []
      | Some i \<Rightarrow> if 0 < i \<and> i < length name - 1 then drop i name else [])"

definition name_stem :: "string \<Rightarrow> string" where
  "name_stem name =
     (case rfind CHR ''.'' name of
        None \<Rightarrow> name
      | Some i \<Rightarrow> if 0 < i \<and> i < length name - 1 then take i name else name)"

text \<open>\<^verbatim>\<open>p.stem\<close>.\<close>

definition stem :: "path \<Rightarrow> string" where
  "stem p = name_stem (path_name p)"

datatype error = ValueError

text \<open>
  \<^verbatim>\<open>p.relative_to(other)\<close> compares parts only; it raises \<^verbatim>\<open>ValueError\<close> when
  \<open>other\<close> is not a prefix of \<open>p\<close>.
\<close>

definition relative_to :: "path \<Rightarrow> path \<Rightarrow> error + path" where
  "relative_to p other =
     (if prefix other p then Inr (drop (length other) p) else Inl ValueError)"

text \<open>\<^verbatim>\<open>p.with_suffix('')\<close> raises \<^verbatim>\<open>ValueError\<close> on a path with an empty name.\<close>

definition with_suffix_empty :: "path \<Rightarrow> error + path" where
  "with_suffix_empty p =
     (if path_name p = [] then Inl ValueError
      else Inr (butlast p @ [name_stem (path_name p)]))"

subsection \<open>The link pattern\<close>

text \<open>
  The scripts find links with the regular expression
  \<^verbatim>\<open>\[\[([^\]|]+)(?:\|([^\]]+))?\]\]\<close>, the two verifiers with the look-ahead
  \<^verbatim>\<open>(?!\+)\<close> after the opening brackets.  Both character classes are negated, so
  each repetition can only stop where the next character is outside its class: the
  match at a position, if any, takes the longest target and the longest label.
  \<open>match_link\<close> is the match at the start of \<open>s\<close>: group 1, group 2 and the text
  after the match.
\<close>

definition match_link :: "bool \<Rightarrow> string \<Rightarrow> (string \<times> string option \<times> string) option" where
  "match_link no_plus s =
     (if \<not> prefix ''[['' s then None
      else
        let r = drop 2 s in
        if no_plus \<and> prefix ''+'' r then None
        else
          let t = takeWhile (\<lambda>c. c \<noteq> CHR '']'' \<and> c \<noteq> CHR ''|'') r;
              r1 = dropWhile (\<lambda>c. c \<noteq> CHR '']'' \<and> c \<noteq> CHR ''|'') r in
          if t = [] then None
          else if prefix '']]'' r1 then Some (t, None, drop 2 r1)
          else if prefix ''|'' r1 then
            (let l = takeWhile (\<lambda>c. c \<noteq> CHR '']'') (drop 1 r1);
                 r2 = dropWhile (\<lambda>c. c \<noteq> CHR '']'') (drop 1 r1) in
             if l \<noteq> [] \<and> prefix '']]'' r2 then Some (t, Some l, drop 2 r2) else None)
          else None)"

record link_info =
  m_start :: nat
  m_end :: nat
  m_full_match :: string
  m_link_path :: string
  m_display_name :: "string option"

text \<open>
  \<^verbatim>\<open>re.finditer\<close>: scan from the left; after a match continue behind it, otherwise
  one character further.  \<open>pos\<close> is the index of the head of \<open>s\<close> in the whole text.  A \<open>link_info\<close> is
  the dictionary \<open>find_all_links\<close> builds for a match, its keys with the prefix \<open>m_\<close>.
\<close>

function find_links :: "bool \<Rightarrow> nat \<Rightarrow> string \<Rightarrow> link_info list" where
  "find_links no_plus pos s =
     (if s = [] then []
      else case match_link no_plus s of
             None \<Rightarrow> find_links no_plus (Suc pos) (tl s)
           | Some (t, l, r) \<Rightarrow>
               \<lparr>m_start = pos, m_end = pos + (length s - length r),
                m_full_match = take (length s - length r) s,
                m_link_path = t, m_display_name = l\<rparr>
               # find_links no_plus (pos + (length s - length r)) r)"
  by pat_completeness auto
termination
proof (relation "measure (\<lambda>(no_plus, pos, s). length s)")
  show "wf (measure (\<lambda>(no_plus, pos, s). length s))"
    by simp
next
  fix no_plus :: bool and pos :: nat and s :: string
  assume "s \<noteq> []"
  then show "((no_plus, Suc pos, tl s), (no_plus, pos, s)) \<in> measure (\<lambda>(no_plus, pos, s). length s)"
    by (cases s) simp_all
next
  fix no_plus :: bool and pos :: nat and s :: string and x2 x y x2a xa ya
  assume nonempty: "s \<noteq> []"
    and m: "match_link no_plus s = Some x2" "(x, y) = x2" "(xa, ya) = y"
  have le: "length (dropWhile P xs) \<le> length xs" for P and xs :: string
    by (simp add: length_dropWhile_le)
  from m have "length ya + 2 \<le> length s"
    using le [of "\<lambda>c. c \<noteq> CHR '']'' \<and> c \<noteq> CHR ''|''" "drop 2 s"]
      le [of "\<lambda>c. c \<noteq> CHR '']''"
            "drop 1 (dropWhile (\<lambda>c. c \<noteq> CHR '']'' \<and> c \<noteq> CHR ''|'') (drop 2 s))"]
    by (auto simp: match_link_def Let_def prefix_def split: if_splits)
  then show "((no_plus, pos + (length s - length ya), ya), (no_plus, pos, s))
      \<in> measure (\<lambda>(no_plus, pos, s). length s)"
    by simp
qed

declare find_links.simps [simp del]

subsection \<open>The file system\<close>

text \<open>
  \<open>sd\<close> is \<^verbatim>\<open>STRUCTURE_DIR\<close>, the resolved directory of the scripts; \<open>ex p\<close> is
  \<^verbatim>\<open>p.exists()\<close>; a store gives the text of each file and is updated by a write.
  \<open>files\<close> is the list \<^verbatim>\<open>get_all_txt_files()\<close> returns: the paths of the
  \<^verbatim>\<open>.txt\<close> files \<^verbatim>\<open>os.walk(STRUCTURE_DIR)\<close> finds, in the order of the walk.
\<close>

type_synonym store = "path \<Rightarrow> string"

text \<open>
  Printing paths relative to \<^verbatim>\<open>STRUCTURE_DIR\<close>: the text printed is not modelled,
  the \<^verbatim>\<open>ValueError\<close> of \<^verbatim>\<open>relative_to\<close> is.
\<close>

definition print_relative :: "path \<Rightarrow> path list \<Rightarrow> error + unit" where
  "print_relative sd ps = (if list_all (prefix sd) ps then Inr () else Inl ValueError)"

subsection \<open>verify\_forward\_links.py\<close>

definition get_content_section :: "string \<Rightarrow> string \<times> string" where
  "get_content_section content =
     (case find_sub ''===== Backlinks ====='' content of
        Some i \<Rightarrow> (take i content, drop i content)
      | None \<Rightarrow> (content, []))"

text \<open>
  \<open>resolve_link_target\<close> returns a pair in Python: \<open>(target, True)\<close> is \<open>Resolved\<close>,
  \<open>(matches, False)\<close> with the list of matches is \<open>Ambiguous\<close>, \<open>(None, False)\<close> is
  \<open>Unresolved\<close>.
\<close>

datatype resolution = Resolved path | Ambiguous "path list" | Unresolved

text \<open>
  The loop over \<^verbatim>\<open>enumerate(parts)\<close>: every part but the last is a directory, the
  last one gets \<^verbatim>\<open>.txt\<close>.
\<close>

fun walk_parts :: "path \<Rightarrow> string list \<Rightarrow> path" where
  "walk_parts target [] = target"
| "walk_parts target [part] = path_div target (part @ ''.txt'')"
| "walk_parts target (part # parts) = walk_parts (path_div target part) parts"

definition resolve_link_target ::
  "path \<Rightarrow> (path \<Rightarrow> bool) \<Rightarrow> string \<Rightarrow> path \<Rightarrow> (string \<rightharpoonup> path list) \<Rightarrow> resolution" where
  "resolve_link_target sd ex link_path source_file name_to_files =
     (let source_dir = parent source_file;
          target = (if CHR '':'' \<in> set link_path
                    then walk_parts sd (split_on CHR '':'' link_path)
                    else path_div source_dir (link_path @ ''.txt''))
      in
        if ex target then Resolved target
        else
          let name = (if CHR '':'' \<in> set link_path
                      then last (split_on CHR '':'' link_path)
                      else link_path)
          in case name_to_files name of
               None \<Rightarrow> Unresolved
             | Some matches \<Rightarrow>
                 if length matches = 1 then Resolved (matches ! 0)
                 else if length matches > 1 then Ambiguous matches
                 else Unresolved)"

text \<open>
  \<open>display_name and display_name != target_name\<close>: Python takes \<open>None\<close> and the
  empty string for false.
\<close>

definition needs_custom_display :: "string option \<Rightarrow> string \<Rightarrow> bool" where
  "needs_custom_display display_name target_name =
     (case display_name of
        None \<Rightarrow> False
      | Some d \<Rightarrow> d \<noteq> [] \<and> d \<noteq> target_name)"

definition get_correct_link_format ::
  "path \<Rightarrow> path \<Rightarrow> path \<Rightarrow> string option \<Rightarrow> error + string" where
  "get_correct_link_format sd source_file target_file display_name =
     (let source_dir = parent source_file;
          target_dir = parent target_file;
          target_name = stem target_file;
          custom = needs_custom_display display_name target_name;
          label = (case display_name of None \<Rightarrow> [] | Some d \<Rightarrow> d)
      in
        if source_dir = target_dir then
          (if custom then Inr (''[['' @ target_name @ ''|'' @ label @ '']]'')
           else Inr (''[['' @ target_name @ '']]''))
        else
          case relative_to target_file sd of
            Inl e \<Rightarrow> Inl e
          | Inr rel \<Rightarrow>
              (case with_suffix_empty rel of
                 Inl e \<Rightarrow> Inl e
               | Inr rel_parts \<Rightarrow>
                   let path = join_with '':'' rel_parts in
                   if custom then Inr (''[['' @ path @ ''|'' @ label @ '']]'')
                   else Inr (''[['' @ path @ ''|'' @ target_name @ '']]'')))"

text \<open>The pattern of \<open>find_all_links\<close> has the look-ahead: no \<^verbatim>\<open>[[+child]]\<close>.\<close>

definition find_all_links :: "string \<Rightarrow> link_info list" where
  "find_all_links content = find_links True 0 content"

text \<open>The issue dictionaries, by their \<^verbatim>\<open>'type'\<close>.\<close>

datatype issue =
    IssueUnresolved link_info
  | IssueAmbiguous link_info "path list"
  | IssueWrongFormat link_info path string

text \<open>The first loop of \<open>check_and_fix_file\<close>: one pass over the links.\<close>

fun file_issues ::
  "path \<Rightarrow> (path \<Rightarrow> bool) \<Rightarrow> path \<Rightarrow> (string \<rightharpoonup> path list) \<Rightarrow> link_info list
     \<Rightarrow> error + issue list" where
  "file_issues sd ex source_file name_to_files [] = Inr []"
| "file_issues sd ex source_file name_to_files (link # links) =
     (case resolve_link_target sd ex (m_link_path link) source_file name_to_files of
        Unresolved \<Rightarrow>
          (case file_issues sd ex source_file name_to_files links of
             Inl e \<Rightarrow> Inl e
           | Inr issues \<Rightarrow> Inr (IssueUnresolved link # issues))
      | Ambiguous candidates \<Rightarrow>
          (case file_issues sd ex source_file name_to_files links of
             Inl e \<Rightarrow> Inl e
           | Inr issues \<Rightarrow> Inr (IssueAmbiguous link candidates # issues))
      | Resolved target_file \<Rightarrow>
          (case get_correct_link_format sd source_file target_file (m_display_name link) of
             Inl e \<Rightarrow> Inl e
           | Inr correct_format \<Rightarrow>
               (case file_issues sd ex source_file name_to_files links of
                  Inl e \<Rightarrow> Inl e
                | Inr issues \<Rightarrow>
                    if m_full_match link \<noteq> correct_format
                    then Inr (IssueWrongFormat link target_file correct_format # issues)
                    else Inr issues)))"

text \<open>
  The report: the path of the file and, for an ambiguous link, its first three
  candidates are printed relative to \<^verbatim>\<open>STRUCTURE_DIR\<close>.
\<close>

fun report_paths :: "issue list \<Rightarrow> path list" where
  "report_paths [] = []"
| "report_paths (IssueAmbiguous link candidates # issues) = take 3 candidates @ report_paths issues"
| "report_paths (_ # issues) = report_paths issues"

fun is_wrong_format :: "issue \<Rightarrow> bool" where
  "is_wrong_format (IssueWrongFormat link target correct) = True"
| "is_wrong_format _ = False"

fun issue_link :: "issue \<Rightarrow> link_info" where
  "issue_link (IssueUnresolved link) = link"
| "issue_link (IssueAmbiguous link candidates) = link"
| "issue_link (IssueWrongFormat link target correct) = link"

text \<open>One replacement: \<open>new_content[:start] + correct_format + new_content[end:]\<close>.\<close>

fun apply_fix :: "string \<Rightarrow> issue \<Rightarrow> string" where
  "apply_fix new_content (IssueWrongFormat link target correct_format) =
     take (m_start link) new_content @ correct_format @ drop (m_end link) new_content"
| "apply_fix new_content _ = new_content"

text \<open>
  \<open>fixable_issues.sort(key=start, reverse=True)\<close>: a stable sort by descending
  start.
\<close>

definition sort_reverse_start :: "issue list \<Rightarrow> issue list" where
  "sort_reverse_start issues = sort_key (\<lambda>i. - int (m_start (issue_link i))) issues"

text \<open>
  \<open>check_and_fix_file\<close> returns the two counts; the model adds the store after
  the call.
\<close>

definition check_and_fix_file ::
  "path \<Rightarrow> (path \<Rightarrow> bool) \<Rightarrow> path \<Rightarrow> (string \<rightharpoonup> path list) \<Rightarrow> bool \<Rightarrow> store
     \<Rightarrow> error + (nat \<times> nat \<times> store)" where
  "check_and_fix_file sd ex source_file name_to_files fix_mode st =
     (let content = st source_file;
          (content_section, backlinks_section) = get_content_section content;
          links = find_all_links content_section
      in case file_issues sd ex source_file name_to_files links of
           Inl e \<Rightarrow> Inl e
         | Inr issues \<Rightarrow>
             if issues = [] then Inr (0, 0, st)
             else
               case print_relative sd (source_file # report_paths issues) of
                 Inl e \<Rightarrow> Inl e
               | Inr _ \<Rightarrow>
                   if fix_mode then
                     let fixable_issues = sort_reverse_start (filter is_wrong_format issues);
                         new_content = foldl apply_fix content_section fixable_issues;
                         fixed_count = length fixable_issues
                     in
                       if fixed_count > 0
                       then Inr (length issues, fixed_count,
                                 st(source_file := new_content @ backlinks_section))
                       else Inr (length issues, fixed_count, st)
                   else Inr (length issues, 0, st))"

text \<open>\<open>name_to_files\<close>: a \<open>defaultdict(list)\<close> filled by \<open>name_to_files[f.stem].append(f)\<close>.\<close>

definition index_add :: "(string \<rightharpoonup> path list) \<Rightarrow> path \<Rightarrow> (string \<rightharpoonup> path list)" where
  "index_add m f =
     m(stem f \<mapsto> (case m (stem f) of None \<Rightarrow> [] | Some fs \<Rightarrow> fs) @ [f])"

definition build_name_index :: "path list \<Rightarrow> (string \<rightharpoonup> path list)" where
  "build_name_index files = foldl index_add Map.empty files"

text \<open>
  The note on duplicate names prints the paths of the first five names (in sorted
  order) that have more than one file.
\<close>

definition duplicate_paths :: "path list \<Rightarrow> path list" where
  "duplicate_paths files =
     (let names = sort (remdups (map stem files));
          dup = filter (\<lambda>n. length (filter (\<lambda>f. stem f = n) files) > 1) names
      in concat (map (\<lambda>n. filter (\<lambda>f. stem f = n) files) (take 5 dup)))"

text \<open>The loop of \<open>main\<close> over \<open>sorted(files)\<close>, with its three counters.\<close>

fun process_files ::
  "path \<Rightarrow> (path \<Rightarrow> bool) \<Rightarrow> (string \<rightharpoonup> path list) \<Rightarrow> bool \<Rightarrow> path list
     \<Rightarrow> nat \<times> nat \<times> nat \<times> store \<Rightarrow> error + (nat \<times> nat \<times> nat \<times> store)" where
  "process_files sd ex name_to_files fix_mode [] acc = Inr acc"
| "process_files sd ex name_to_files fix_mode (source_file # rest)
       (total_issues, total_fixed, files_with_issues, st) =
     (case check_and_fix_file sd ex source_file name_to_files fix_mode st of
        Inl e \<Rightarrow> Inl e
      | Inr (issues, fixed, st') \<Rightarrow>
          if issues > 0
          then process_files sd ex name_to_files fix_mode rest
                 (total_issues + issues, total_fixed + fixed, files_with_issues + 1, st')
          else process_files sd ex name_to_files fix_mode rest
                 (total_issues, total_fixed, files_with_issues, st'))"

text \<open>
  \<open>main\<close> returns the exit code; the model adds the totals of the run and the store
  after it.
\<close>

definition main_forward ::
  "path \<Rightarrow> (path \<Rightarrow> bool) \<Rightarrow> path list \<Rightarrow> bool \<Rightarrow> store
     \<Rightarrow> error + (nat \<times> nat \<times> nat \<times> store)" where
  "main_forward sd ex files fix_mode st =
     (let name_to_files = build_name_index files in
      case print_relative sd (duplicate_paths files) of
        Inl e \<Rightarrow> Inl e
      | Inr _ \<Rightarrow>
          (case process_files sd ex name_to_files fix_mode (sort files) (0, 0, 0, st) of
             Inl e \<Rightarrow> Inl e
           | Inr (total_issues, total_fixed, files_with_issues, st') \<Rightarrow>
               if total_issues = 0 then Inr (0, total_issues, total_fixed, st')
               else Inr (1, total_issues, total_fixed, st')))"

text \<open>
  \<open>sys.exit(main())\<close>: the exit code of the process is the value of \<open>main\<close>, and 1
  when an exception ends the run.
\<close>

definition exit_code :: "error + (nat \<times> 'a) \<Rightarrow> nat" where
  "exit_code r = (case r of Inl e \<Rightarrow> 1 | Inr (code, rest) \<Rightarrow> code)"

subsection \<open>verify\_backlinks.py\<close>

text \<open>
  \<open>extract_links\<close> cuts the text at the same literal and uses the same pattern,
  without the second group; it returns the targets.
\<close>

definition extract_links :: "string \<Rightarrow> path \<Rightarrow> string list" where
  "extract_links content file_path =
     (let content' = (case find_sub ''===== Backlinks ====='' content of
                        Some i \<Rightarrow> take i content
                      | None \<Rightarrow> content)
      in map m_link_path (find_links True 0 content'))"

text \<open>\<open>resolve_link\<close> returns the path, or \<open>None\<close>.\<close>

definition resolve_link ::
  "path \<Rightarrow> (path \<Rightarrow> bool) \<Rightarrow> string \<Rightarrow> path \<Rightarrow> (string \<rightharpoonup> path list) \<Rightarrow> path option" where
  "resolve_link sd ex link source_file name_to_files =
     (let source_dir = parent source_file;
          target = (if CHR '':'' \<in> set link
                    then walk_parts sd (split_on CHR '':'' link)
                    else path_div source_dir (link @ ''.txt''))
      in
        if ex target then Some target
        else
          let target_name = (if CHR '':'' \<in> set link
                             then last (split_on CHR '':'' link)
                             else link)
          in case name_to_files target_name of
               None \<Rightarrow> None
             | Some matches \<Rightarrow> if length matches = 1 then Some (matches ! 0) else None)"

definition get_link_format :: "path \<Rightarrow> path \<Rightarrow> path \<Rightarrow> error + string" where
  "get_link_format sd source_file target_file =
     (let source_dir = parent source_file;
          target_dir = parent target_file;
          target_name = stem target_file
      in
        if source_dir = target_dir then Inr (''[['' @ target_name @ '']]'')
        else
          case relative_to target_file sd of
            Inl e \<Rightarrow> Inl e
          | Inr rel \<Rightarrow>
              (case with_suffix_empty rel of
                 Inl e \<Rightarrow> Inl e
               | Inr rel_parts \<Rightarrow>
                   let path = join_with '':'' rel_parts in
                   Inr (''[['' @ path @ ''|'' @ target_name @ '']]'')))"

text \<open>The loop of \<open>fix_backlinks_in_file\<close> that formats one link per source.\<close>

fun format_links :: "path \<Rightarrow> path \<Rightarrow> path list \<Rightarrow> error + string list" where
  "format_links sd target_file [] = Inr []"
| "format_links sd target_file (source # sources) =
     (case get_link_format sd target_file source of
        Inl e \<Rightarrow> Inl e
      | Inr link \<Rightarrow>
          (case format_links sd target_file sources of
             Inl e \<Rightarrow> Inl e
           | Inr links \<Rightarrow> Inr (link # links)))"

text \<open>
  \<open>fix_backlinks_in_file\<close> returns \<open>False\<close> without writing when the file has no
  header line; the model adds the store after the call.  \<open>sorted(..., key=stem)\<close>
  is a stable sort.
\<close>

definition fix_backlinks_in_file ::
  "path \<Rightarrow> path \<Rightarrow> path list \<Rightarrow> store \<Rightarrow> error + (bool \<times> store)" where
  "fix_backlinks_in_file sd target_file expected_sources st =
     (let content = st target_file in
      case find_sub ''===== Backlinks =====\<newline>'' content of
        None \<Rightarrow> Inr (False, st)
      | Some i \<Rightarrow>
          let header = ''===== Backlinks =====\<newline>'';
              content_before = take i content
          in
            if expected_sources = []
            then Inr (True, st(target_file := content_before @ header @ ''(no backlinks)\<newline>''))
            else
              case format_links sd target_file (sort_key stem expected_sources) of
                Inl e \<Rightarrow> Inl e
              | Inr links \<Rightarrow>
                  Inr (True, st(target_file :=
                         content_before @ header @ (join_with ''\<newline>'' links @ ''\<newline>''))))"

text \<open>
  The first pass of \<open>main\<close>: \<open>reverse_links\<close> is a \<open>defaultdict(list)\<close>, a function
  with value \<open>[]\<close> where nothing was appended.
\<close>

fun add_links ::
  "path \<Rightarrow> (path \<Rightarrow> bool) \<Rightarrow> (string \<rightharpoonup> path list) \<Rightarrow> path \<Rightarrow> string list
     \<Rightarrow> (path \<Rightarrow> path list) \<times> (path \<times> string) list
     \<Rightarrow> (path \<Rightarrow> path list) \<times> (path \<times> string) list" where
  "add_links sd ex name_to_files source_file [] acc = acc"
| "add_links sd ex name_to_files source_file (link # links) (reverse_links, unresolved_links) =
     (case resolve_link sd ex link source_file name_to_files of
        Some target_file \<Rightarrow>
          add_links sd ex name_to_files source_file links
            (reverse_links(target_file := reverse_links target_file @ [source_file]),
             unresolved_links)
      | None \<Rightarrow>
          add_links sd ex name_to_files source_file links
            (reverse_links, unresolved_links @ [(source_file, link)]))"

fun first_pass ::
  "path \<Rightarrow> (path \<Rightarrow> bool) \<Rightarrow> (string \<rightharpoonup> path list) \<Rightarrow> store \<Rightarrow> path list
     \<Rightarrow> (path \<Rightarrow> path list) \<times> (path \<times> string) list
     \<Rightarrow> (path \<Rightarrow> path list) \<times> (path \<times> string) list" where
  "first_pass sd ex name_to_files st [] acc = acc"
| "first_pass sd ex name_to_files st (source_file # rest) acc =
     first_pass sd ex name_to_files st rest
       (add_links sd ex name_to_files source_file
          (extract_links (st source_file) source_file) acc)"

record backlink_issue =
  i_file :: path
  i_missing :: "path set"
  i_extra :: "path set"
  i_expected :: "path list"

text \<open>
  The second pass, for one file: \<open>None\<close> when the file has no header line
  (\<open>continue\<close>), otherwise the list with its issue, if it has one.

  \<open>sorted(set(xs), key=stem)\<close> sorts, stably, the elements of the set in the order
  in which the set is iterated.  That order depends on the hashes of the paths, which
  change with the hash seed of the process: it is the parameter \<open>set_iter\<close> of the
  model, the list in which \<open>set(xs)\<close> is iterated (\<open>set_iteration\<close> says what is known
  of it).  Sources of equal stem keep the order \<open>set_iter\<close> gives them.
\<close>

definition set_iteration :: "(path list \<Rightarrow> path list) \<Rightarrow> bool" where
  "set_iteration set_iter \<longleftrightarrow> (\<forall>xs. distinct (set_iter xs) \<and> set (set_iter xs) = set xs)"

definition check_backlinks ::
  "(path list \<Rightarrow> path list) \<Rightarrow> path \<Rightarrow> (path \<Rightarrow> bool) \<Rightarrow> (string \<rightharpoonup> path list)
     \<Rightarrow> (path \<Rightarrow> path list) \<Rightarrow> store \<Rightarrow> path \<Rightarrow> backlink_issue list option" where
  "check_backlinks set_iter sd ex name_to_files reverse_links st target_file =
     (let content = st target_file in
      case find_sub ''===== Backlinks =====\<newline>'' content of
        None \<Rightarrow> None
      | Some i \<Rightarrow>
          let current_backlinks_text =
                strip (drop (i + length ''===== Backlinks =====\<newline>'') content);
              current_links = map m_link_path (find_links False 0 current_backlinks_text);
              expected_sources = sort_key stem (set_iter (reverse_links target_file));
              current_set = set (List.map_filter
                (\<lambda>link. resolve_link sd ex link target_file name_to_files) current_links);
              expected_set = set expected_sources;
              is_no_backlinks = (contains ''no backlinks'' (lower current_backlinks_text)
                \<or> contains ''root production'' (lower current_backlinks_text))
          in
            if current_set \<noteq> expected_set \<or> (is_no_backlinks \<and> expected_set \<noteq> {})
            then Some [\<lparr>i_file = target_file, i_missing = expected_set - current_set,
                        i_extra = current_set - expected_set, i_expected = expected_sources\<rparr>]
            else Some [])"

definition second_pass ::
  "(path list \<Rightarrow> path list) \<Rightarrow> path \<Rightarrow> (path \<Rightarrow> bool) \<Rightarrow> (string \<rightharpoonup> path list)
     \<Rightarrow> (path \<Rightarrow> path list) \<Rightarrow> store \<Rightarrow> path list \<Rightarrow> backlink_issue list" where
  "second_pass set_iter sd ex name_to_files reverse_links st files =
     concat (map (\<lambda>target_file.
       case check_backlinks set_iter sd ex name_to_files reverse_links st target_file of
         None \<Rightarrow> []
       | Some issues \<Rightarrow> issues) (sort files))"

text \<open>
  The report loop: the paths of the file, of the missing and of the extra sources
  are printed relative to \<^verbatim>\<open>STRUCTURE_DIR\<close>, then the file is fixed in fix mode.
\<close>

definition issue_paths_ok :: "path \<Rightarrow> backlink_issue \<Rightarrow> bool" where
  "issue_paths_ok sd issue \<longleftrightarrow>
     prefix sd (i_file issue) \<and> Ball (i_missing issue) (prefix sd) \<and> Ball (i_extra issue) (prefix sd)"

fun report_and_fix :: "path \<Rightarrow> bool \<Rightarrow> backlink_issue list \<Rightarrow> store \<Rightarrow> error + store" where
  "report_and_fix sd fix_mode [] st = Inr st"
| "report_and_fix sd fix_mode (issue # issues) st =
     (if \<not> issue_paths_ok sd issue then Inl ValueError
      else if fix_mode then
        (case fix_backlinks_in_file sd (i_file issue) (i_expected issue) st of
           Inl e \<Rightarrow> Inl e
         | Inr (fixed, st') \<Rightarrow> report_and_fix sd fix_mode issues st')
      else report_and_fix sd fix_mode issues st)"

text \<open>
  \<open>main\<close> returns the exit code; the model adds the list of issues found and the
  store after the run.
\<close>

definition backlink_issues ::
  "(path list \<Rightarrow> path list) \<Rightarrow> path \<Rightarrow> (path \<Rightarrow> bool) \<Rightarrow> path list \<Rightarrow> store
     \<Rightarrow> backlink_issue list" where
  "backlink_issues set_iter sd ex files st =
     (let name_to_files = build_name_index files;
          (reverse_links, unresolved_links) =
             first_pass sd ex name_to_files st files (\<lambda>p. [], [])
      in second_pass set_iter sd ex name_to_files reverse_links st files)"

definition main_backlinks ::
  "(path list \<Rightarrow> path list) \<Rightarrow> path \<Rightarrow> (path \<Rightarrow> bool) \<Rightarrow> path list \<Rightarrow> bool \<Rightarrow> store
     \<Rightarrow> error + (nat \<times> backlink_issue list \<times> store)" where
  "main_backlinks set_iter sd ex files fix_mode st =
     (let name_to_files = build_name_index files;
          (reverse_links, unresolved_links) =
             first_pass sd ex name_to_files st files (\<lambda>p. [], [])
      in
        case print_relative sd (map fst (take 10 unresolved_links)) of
          Inl e \<Rightarrow> Inl e
        | Inr _ \<Rightarrow>
            let issues = second_pass set_iter sd ex name_to_files reverse_links st files in
            if issues \<noteq> [] then
              (case report_and_fix sd fix_mode issues st of
                 Inl e \<Rightarrow> Inl e
               | Inr st' \<Rightarrow> Inr (1, issues, st'))
            else Inr (0, issues, st))"

subsection \<open>os.path, and the files of the three scripts that use it\<close>

text \<open>
  \<open>fix_all_links.py\<close>, \<open>check_links.py\<close> and \<open>find_broken_links.py\<close> work on path
  strings below the constant \<open>BASE_DIR\<close>.  \<open>isfile\<close> is \<^verbatim>\<open>os.path.isfile\<close> and a text
  store gives the content of a file by its path string.
\<close>

definition BASE_DIR :: string where
  "BASE_DIR = ''/home/dhk/projects/verilog-1800-2003-tests/doc/Structure''"

text \<open>\<^verbatim>\<open>os.path.join(a, b)\<close> of \<^verbatim>\<open>posixpath\<close>: an absolute \<open>b\<close> replaces \<open>a\<close>.\<close>

definition os_path_join :: "string \<Rightarrow> string \<Rightarrow> string" where
  "os_path_join a b =
     (if prefix ''/'' b then b
      else if a = [] \<or> suffix ''/'' a then a @ b
      else a @ ''/'' @ b)"

type_synonym text_store = "string \<Rightarrow> string"

text \<open>
  \<^verbatim>\<open>os.walk(BASE_DIR)\<close> yields each directory as \<open>root\<close>, \<open>BASE_DIR\<close> joined with the
  directory's relative path \<open>d\<close>, and its file names.  The model lists the files of
  the walk, in its order, as pairs \<open>(d, filename)\<close>, with \<open>d\<close> empty for \<open>BASE_DIR\<close>
  itself; \<^verbatim>\<open>os.path.relpath(os.path.join(root, filename), BASE_DIR)\<close> is then \<open>d\<close>
  joined with the file name.
\<close>

type_synonym walked = "(string \<times> string) list"

definition walked_filepath :: "string \<times> string \<Rightarrow> string" where
  "walked_filepath w = os_path_join (os_path_join BASE_DIR (fst w)) (snd w)"

definition walked_rel_path :: "string \<times> string \<Rightarrow> string" where
  "walked_rel_path w = os_path_join (fst w) (snd w)"

subsection \<open>check\_links.py and find\_broken\_links.py\<close>


definition link_file_path :: "string \<Rightarrow> string" where
  "link_file_path link_path = replace_char CHR '':'' CHR ''/'' link_path @ ''.txt''"




subsection \<open>fix\_all\_links.py\<close>

text \<open>
  The search \<^verbatim>\<open>^([a-z0-9_][a-z0-9_]*)\s*::=\<close> with \<^verbatim>\<open>re.MULTILINE\<close>: the first
  line start where a name, optional white space and \<^verbatim>\<open>::=\<close> follow.  The three
  classes are disjoint, so the name and the white space are the longest runs.
\<close>

definition is_name_char :: "char \<Rightarrow> bool" where
  "is_name_char c \<longleftrightarrow>
     (let n = (of_char c :: nat) in
      (97 \<le> n \<and> n \<le> 122) \<or> (48 \<le> n \<and> n \<le> 57) \<or> c = CHR ''_'')"

definition match_element :: "string \<Rightarrow> string option" where
  "match_element s =
     (let name = takeWhile is_name_char s;
          r = dropWhile py_isspace (dropWhile is_name_char s)
      in if name \<noteq> [] \<and> prefix ''::='' r then Some name else None)"

fun search_element :: "bool \<Rightarrow> string \<Rightarrow> string option" where
  "search_element at_line_start [] = None"
| "search_element at_line_start (c # cs) =
     (if at_line_start then
        (case match_element (c # cs) of
           Some name \<Rightarrow> Some name
         | None \<Rightarrow> search_element (c = CHR 10) cs)
      else search_element (c = CHR 10) cs)"

text \<open>
  \<open>build_element_index\<close>: the loop body for one \<^verbatim>\<open>.txt\<close> file, and the loop over the
  walk.
\<close>

definition index_file ::
  "text_store \<Rightarrow> (string \<rightharpoonup> string) \<Rightarrow> string \<times> string \<Rightarrow> (string \<rightharpoonup> string)" where
  "index_file st elements w =
     (let filename = snd w in
      if \<not> suffix ''.txt'' filename \<or> suffix ''.py'' filename then elements
      else
        let filepath = walked_filepath w;
            rel_path = walked_rel_path w;
            zim_path = replace_char CHR ''/'' CHR '':'' (take (length rel_path - 4) rel_path);
            content = st filepath;
            elements1 = (case search_element True content of
                           Some element_name \<Rightarrow> elements(element_name \<mapsto> zim_path)
                         | None \<Rightarrow> elements);
            base_name = replace_char CHR '' '' CHR ''_'' (take (length filename - 4) filename)
        in if elements1 base_name = None then elements1(base_name \<mapsto> zim_path) else elements1)"

definition build_element_index :: "text_store \<Rightarrow> walked \<Rightarrow> (string \<rightharpoonup> string)" where
  "build_element_index st walk = foldl (index_file st) Map.empty walk"

text \<open>The callback of \<^verbatim>\<open>re.sub\<close>: what one match is replaced by.\<close>

definition replace_link ::
  "(string \<Rightarrow> bool) \<Rightarrow> (string \<rightharpoonup> string) \<Rightarrow> string \<Rightarrow> string \<Rightarrow> string option \<Rightarrow> string" where
  "replace_link isfile elements whole link_path label =
     (if prefix ''+'' link_path then whole
      else if CHR '':'' \<in> set link_path
              \<and> isfile (os_path_join BASE_DIR (link_file_path link_path))
      then whole
      else
        let element_name = (if CHR '':'' \<in> set link_path
                            then last (split_on CHR '':'' link_path)
                            else link_path)
        in case elements element_name of
             Some target_zim \<Rightarrow>
               (case label of
                  Some lab \<Rightarrow>
                    if lab \<noteq> [] then ''[['' @ target_zim @ ''|'' @ lab @ '']]''
                    else ''[['' @ target_zim @ ''|'' @ element_name @ '']]''
                | None \<Rightarrow> ''[['' @ target_zim @ ''|'' @ element_name @ '']]'')
           | None \<Rightarrow> whole)"

text \<open>
  \<^verbatim>\<open>re.sub(pattern, replace_link, content)\<close>: the matches are those \<open>find_links\<close>
  finds, each replaced by the callback's value, the text between them kept.
\<close>

function sub_links ::
  "(string \<Rightarrow> string \<Rightarrow> string option \<Rightarrow> string) \<Rightarrow> string \<Rightarrow> string" where
  "sub_links repl s =
     (if s = [] then []
      else case match_link False s of
             None \<Rightarrow> hd s # sub_links repl (tl s)
           | Some (t, l, r) \<Rightarrow> repl (take (length s - length r) s) t l @ sub_links repl r)"
  by pat_completeness auto
termination
proof (relation "measure (\<lambda>(repl, s). length s)")
  show "wf (measure (\<lambda>(repl, s). length s))"
    by simp
next
  fix repl :: "string \<Rightarrow> string \<Rightarrow> string option \<Rightarrow> string" and s :: string
  assume "s \<noteq> []"
  then show "((repl, tl s), (repl, s)) \<in> measure (\<lambda>(repl, s). length s)"
    by (cases s) simp_all
next
  fix repl :: "string \<Rightarrow> string \<Rightarrow> string option \<Rightarrow> string" and s :: string and x2 x y xa ya
  assume nonempty: "s \<noteq> []"
    and m: "match_link False s = Some x2" "(x, y) = x2" "(xa, ya) = y"
  have le: "length (dropWhile P xs) \<le> length xs" for P and xs :: string
    by (simp add: length_dropWhile_le)
  from m have "length ya + 2 \<le> length s"
    using le [of "\<lambda>c. c \<noteq> CHR '']'' \<and> c \<noteq> CHR ''|''" "drop 2 s"]
      le [of "\<lambda>c. c \<noteq> CHR '']''"
            "drop 1 (dropWhile (\<lambda>c. c \<noteq> CHR '']'' \<and> c \<noteq> CHR ''|'') (drop 2 s))"]
    by (auto simp: match_link_def Let_def prefix_def split: if_splits)
  then show "((repl, ya), (repl, s)) \<in> measure (\<lambda>(repl, s). length s)"
    by simp
qed

declare sub_links.simps [simp del]

text \<open>\<open>fix_file\<close> returns whether it wrote; the model adds the store after the call.\<close>

definition fix_file ::
  "(string \<Rightarrow> bool) \<Rightarrow> string \<Rightarrow> (string \<rightharpoonup> string) \<Rightarrow> text_store \<Rightarrow> bool \<times> text_store" where
  "fix_file isfile filepath elements st =
     (let content = st filepath;
          original = content;
          content' = sub_links (replace_link isfile elements) content
      in if content' \<noteq> original then (True, st(filepath := content')) else (False, st))"

section \<open>The specification's notions\<close>

text \<open>
  The definitions of this section follow the wording of the specification; the
  theorems below compare them with the functions of the scripts.
\<close>

text \<open>
  Section 4.3, step 3: the look-up of a bare name in the Name Index.  Zero matches
  give \<open>Unresolved\<close>, exactly one \<open>Resolved\<close>, more than one \<open>Ambiguous\<close> with all
  candidates.
\<close>

definition spec_lookup :: "(string \<rightharpoonup> path list) \<Rightarrow> string \<Rightarrow> resolution" where
  "spec_lookup name_index name =
     (let candidates = (case name_index name of None \<Rightarrow> [] | Some fs \<Rightarrow> fs) in
      if candidates = [] then Unresolved
      else if length candidates = 1 then Resolved (hd candidates)
      else Ambiguous candidates)"

text \<open>
  Section 4.3, steps 1 and 2.  A target is the text of its segments, the pieces
  between its colons: the directory segments and the final name.  It is qualified
  when it has a colon, that is, a directory segment.  A qualified target is walked
  from the corpus root through each directory segment, where the empty segment and
  the segment \<^verbatim>\<open>.\<close> name the directory one is in; an unqualified one is a bare name
  in the directory of the source document.  The file looked for has the final name
  with \<^verbatim>\<open>.txt\<close> appended; the fallback looks up the final name.
\<close>

fun colon_joined :: "string list \<Rightarrow> string" where
  "colon_joined [] = []"
| "colon_joined [segment] = segment"
| "colon_joined (segment # segments) = segment @ '':'' @ colon_joined segments"

definition enter :: "path \<Rightarrow> string \<Rightarrow> path" where
  "enter dir segment = (if segment = [] \<or> segment = ''.'' then dir else dir @ [segment])"

definition spec_resolve ::
  "path \<Rightarrow> (path \<Rightarrow> bool) \<Rightarrow> string list \<Rightarrow> string \<Rightarrow> path \<Rightarrow> (string \<rightharpoonup> path list)
     \<Rightarrow> resolution" where
  "spec_resolve root ex dirs final source_dir name_index =
     (let dir = (if dirs = [] then source_dir else foldl enter root dirs);
          literal = dir @ [final @ ''.txt'']
      in if ex literal then Resolved literal else spec_lookup name_index final)"

text \<open>
  A document of the corpus is a file \<^verbatim>\<open>name.txt\<close>, with a non-empty short name
  \<open>name\<close>, in a directory at or below the corpus root: its path is the path of the
  root, the directory segments \<open>doc_dirs\<close> and the file name.  The files
  \<open>get_all_txt_files\<close> lists are of this kind.
\<close>

definition is_document :: "path \<Rightarrow> path \<Rightarrow> bool" where
  "is_document root p \<longleftrightarrow>
     prefix root p \<and> length root < length p \<and> suffix ''.txt'' (last p) \<and> last p \<noteq> ''.txt''"

definition doc_dirs :: "path \<Rightarrow> path \<Rightarrow> string list" where
  "doc_dirs root p = drop (length root) (butlast p)"

definition doc_name :: "path \<Rightarrow> string" where
  "doc_name p = take (length (last p) - 4) (last p)"

text \<open>
  The directory that a list of segments leads to from the corpus root: a segment
  \<^verbatim>\<open>..\<close> goes back to the directory above.  Two documents are in the same directory
  when their directory segments lead to the same directory.  The path of a document
  is normal when it has no segment \<^verbatim>\<open>..\<close>, as the paths of the walk are; then
  the directory is given by the directory segments as they are written.
\<close>

fun collapse :: "string list \<Rightarrow> string list \<Rightarrow> string list" where
  "collapse up [] = rev up"
| "collapse up (segment # segments) =
     (if segment = ''..'' \<and> up \<noteq> [] \<and> hd up \<noteq> ''..''
      then collapse (tl up) segments
      else collapse (segment # up) segments)"

definition directory :: "path \<Rightarrow> path \<Rightarrow> string list" where
  "directory root p = collapse [] (doc_dirs root p)"

definition normal_document :: "path \<Rightarrow> path \<Rightarrow> bool" where
  "normal_document root p \<longleftrightarrow> is_document root p \<and> ''..'' \<notin> set (doc_dirs root p)"

text \<open>
  Section 4.4: the qualified path of a document, the segments of its directory
  from the corpus root and its short name, joined by colons; and the canonical text
  of a link.
\<close>

definition qualified_path :: "path \<Rightarrow> path \<Rightarrow> string" where
  "qualified_path root target = colon_joined (directory root target @ [doc_name target])"

definition label_differs :: "string option \<Rightarrow> string \<Rightarrow> bool" where
  "label_differs label name = (case label of None \<Rightarrow> False | Some l \<Rightarrow> l \<noteq> name)"

definition spec_format :: "path \<Rightarrow> path \<Rightarrow> path \<Rightarrow> string option \<Rightarrow> string" where
  "spec_format root source target label =
     (let name = doc_name target;
          given = (case label of None \<Rightarrow> [] | Some l \<Rightarrow> l)
      in
        if directory root source = directory root target then
          (if label_differs label name then ''[['' @ name @ ''|'' @ given @ '']]''
           else ''[['' @ name @ '']]'')
        else
          (if label_differs label name
           then ''[['' @ qualified_path root target @ ''|'' @ given @ '']]''
           else ''[['' @ qualified_path root target @ ''|'' @ name @ '']]''))"

text \<open>
  The first occurrence of a literal in a text: it starts at index \<open>i\<close> and at no
  smaller index.
\<close>

definition first_occurrence :: "string \<Rightarrow> string \<Rightarrow> nat \<Rightarrow> bool" where
  "first_occurrence pat s i \<longleftrightarrow>
     i \<le> length s \<and> prefix pat (drop i s) \<and> (\<forall>j<i. \<not> prefix pat (drop j s))"

text \<open>
  Section 4.5: one rewrite pass.  \<open>render pos content fixes\<close> is the text of
  \<open>content\<close> from index \<open>pos\<close> on, with each span \<open>(s, e)\<close> of \<open>fixes\<close> (in ascending
  order) replaced by its new text and everything between the spans kept.
\<close>

fun render :: "nat \<Rightarrow> string \<Rightarrow> (nat \<times> nat \<times> string) list \<Rightarrow> string" where
  "render pos content [] = drop pos content"
| "render pos content ((s, e, r) # fixes) =
     take (s - pos) (drop pos content) @ r @ render e content fixes"

fun fix_span :: "issue \<Rightarrow> nat \<times> nat \<times> string" where
  "fix_span (IssueWrongFormat link target correct_format) = (m_start link, m_end link, correct_format)"
| "fix_span i = (m_start (issue_link i), m_end (issue_link i), m_full_match (issue_link i))"

text \<open>
  Where the character at index \<open>a\<close> of the content stands in \<open>render pos content fixes\<close>,
  when \<open>a\<close> lies in no span of \<open>fixes\<close>.
\<close>

fun new_index :: "nat \<Rightarrow> nat \<Rightarrow> (nat \<times> nat \<times> string) list \<Rightarrow> nat" where
  "new_index pos a [] = a - pos"
| "new_index pos a ((s, e, r) # fixes) =
     (if e \<le> a then (s - pos) + length r + new_index e a fixes else a - pos)"

text \<open>The issues the forward-link verifier finds in a file of a store.\<close>

definition forward_issues ::
  "path \<Rightarrow> (path \<Rightarrow> bool) \<Rightarrow> (string \<rightharpoonup> path list) \<Rightarrow> store \<Rightarrow> path \<Rightarrow> error + issue list" where
  "forward_issues sd ex name_to_files st source_file =
     file_issues sd ex source_file name_to_files
       (find_all_links (fst (get_content_section (st source_file))))"

text \<open>
  Spans in ascending order: each span \<open>(s, e)\<close> is not empty, starts at or after \<open>pos\<close>
  and the end of the span before it, and ends at or before \<open>n\<close>.  The spans of the matches of
  the link pattern are of this kind (the non-overlapping spans of section 8).
\<close>

fun spans_ok :: "nat \<Rightarrow> nat \<Rightarrow> (nat \<times> nat \<times> string) list \<Rightarrow> bool" where
  "spans_ok pos n [] = True"
| "spans_ok pos n ((s, e, r) # fixes) = (pos \<le> s \<and> s < e \<and> e \<le> n \<and> spans_ok e n fixes)"

definition link_span :: "link_info \<Rightarrow> nat \<times> nat \<times> string" where
  "link_span l = (m_start l, m_end l, m_full_match l)"

text \<open>
  Section 4.7: the body of a Backlinks block for a list of inbound documents, the
  canonical links to them, one per line, or the sentinel when there is none.
\<close>

definition spec_backlinks_body :: "path \<Rightarrow> path \<Rightarrow> path list \<Rightarrow> string" where
  "spec_backlinks_body root document inbound =
     (if inbound = [] then ''(no backlinks)\<newline>''
      else concat (map (\<lambda>source. spec_format root document source None @ ''\<newline>'') inbound))"


section \<open>An example corpus\<close>

text \<open>
  A small corpus for the concrete instances below: the pages \<open>x\<close> at the root and in
  the directory \<open>d\<close>, the page \<open>y\<close> in \<open>d\<close> and the page \<open>c\<close> in the directory \<open>e\<close>.
\<close>

definition ex_root :: path where
  "ex_root = [''/'', ''S'']"

definition ex_files :: "path list" where
  "ex_files =
     [[''/'', ''S'', ''x.txt''], [''/'', ''S'', ''d'', ''x.txt''],
      [''/'', ''S'', ''d'', ''y.txt''], [''/'', ''S'', ''e'', ''c.txt'']]"

definition ex_exists :: "path \<Rightarrow> bool" where
  "ex_exists p \<longleftrightarrow> p \<in> set ex_files"

text \<open>
  A store for the corpus: the root page \<open>x\<close> has an empty Backlinks block; the page
  \<open>d/y\<close> has a link in qualified form without label, a qualified link to a page of
  its own directory, and a link with two candidates.
\<close>

definition ex_store :: store where
  "ex_store p =
     (if p = [''/'', ''S'', ''x.txt'']
      then ''top\<newline>===== Backlinks =====\<newline>(no backlinks)\<newline>''
      else if p = [''/'', ''S'', ''d'', ''y.txt'']
      then ''see [[e:c]] and [[d:x|x]] or [[z:x]]\<newline>===== Backlinks =====\<newline>[[q]]\<newline>''
      else [])"

text \<open>
  A second store, in which every issue can be repaired: the page \<open>d/y\<close> links to the
  page \<open>e/c\<close> without the label the canonical form asks for, and the Backlinks block of
  \<open>e/c\<close> does not list \<open>d/y\<close>.
\<close>

definition ex_store_fixable :: store where
  "ex_store_fixable p =
     (if p = [''/'', ''S'', ''d'', ''y.txt''] then ''see [[e:c]]\<newline>''
      else if p = [''/'', ''S'', ''e'', ''c.txt'']
      then ''c\<newline>===== Backlinks =====\<newline>(no backlinks)\<newline>''
      else [])"




definition ex_texts :: text_store where
  "ex_texts p =
     (if p = BASE_DIR @ ''/x.txt'' then ''x index\<newline>''
      else if p = BASE_DIR @ ''/d/x.txt'' then ''x ::= a b\<newline>''
      else if p = BASE_DIR @ ''/e/c.txt'' then ''see [[x]]\<newline>''
      else [])"

section \<open>Lemmas on the library functions\<close>


lemma split_on_nonempty: "split_on c s \<noteq> []"
  by (induction s) (auto split: list.splits)

lemma split_on_no_sep: "c \<notin> set s \<Longrightarrow> split_on c s = [s]"
  by (induction s) auto

lemma walk_parts_foldl:
  "parts \<noteq> [] \<Longrightarrow>
   walk_parts target parts
     = path_div (foldl path_div target (butlast parts)) (last parts @ ''.txt'')"
  by (induction target parts rule: walk_parts.induct) auto

section \<open>The resolver\<close>

lemma lookup_eq_spec:
  "(case name_to_files name of
      None \<Rightarrow> Unresolved
    | Some matches \<Rightarrow>
        if length matches = 1 then Resolved (matches ! 0)
        else if length matches > 1 then Ambiguous matches
        else Unresolved) = spec_lookup name_to_files name"
proof (cases "name_to_files name")
  case None
  then show ?thesis by (simp add: spec_lookup_def)
next
  case (Some matches)
  then show ?thesis
    by (cases matches) (auto simp: spec_lookup_def)
qed

lemma split_on_colon_joined:
  assumes "segments \<noteq> []" and "\<forall>segment \<in> set segments. CHR '':'' \<notin> set segment"
  shows "split_on CHR '':'' (colon_joined segments) = segments"
  using assms
proof (induction segments rule: colon_joined.induct)
  case 1
  then show ?case by simp
next
  case (2 segment)
  then show ?case by (simp add: split_on_no_sep)
next
  case (3 segment s segments)
  have app: "CHR '':'' \<notin> set a \<Longrightarrow> split_on CHR '':'' (a @ CHR '':'' # b) = a # split_on CHR '':'' b"
    for a b :: string
    by (induction a) (auto split: list.splits)
  from 3 show ?case
    by (simp add: app)
qed

lemma colon_joined_qualified:
  assumes "\<forall>segment \<in> set (dirs @ [final]). CHR '':'' \<notin> set segment"
  shows "CHR '':'' \<in> set (colon_joined (dirs @ [final])) \<longleftrightarrow> dirs \<noteq> []"
proof (cases dirs)
  case Nil
  with assms show ?thesis by simp
next
  case (Cons d ds)
  then have "colon_joined (dirs @ [final]) = d @ '':'' @ colon_joined (ds @ [final])"
    by (cases ds) simp_all
  with Cons show ?thesis by simp
qed

lemma path_div_segment:
  assumes "CHR ''/'' \<notin> set segment"
  shows "path_div dir segment = enter dir segment"
proof -
  from assms have "\<not> prefix ''/'' segment" and "\<not> prefix ''//'' segment"
    by (auto simp: prefix_def)
  then have "path_root segment = []"
    by (simp add: path_root_def)
  moreover from assms have "path_segments segment = (if segment \<noteq> [] \<and> segment \<noteq> ''.'' then [segment] else [])"
    by (simp add: path_segments_def split_on_no_sep)
  ultimately show ?thesis
    by (simp add: path_div_def enter_def)
qed

lemma path_div_segments:
  assumes "\<forall>segment \<in> set dirs. CHR ''/'' \<notin> set segment"
  shows "foldl path_div dir dirs = foldl enter dir dirs"
  using assms by (induction dirs arbitrary: dir) (simp_all add: path_div_segment)

lemma path_div_file:
  assumes "CHR ''/'' \<notin> set final"
  shows "path_div dir (final @ ''.txt'') = dir @ [final @ ''.txt'']"
proof -
  from assms have "CHR ''/'' \<notin> set (final @ ''.txt'')"
    by simp
  from path_div_segment [OF this] show ?thesis
    by (simp add: enter_def)
qed

lemma parent_file: "dir \<noteq> [] \<Longrightarrow> parent (dir @ [file_name]) = dir"
  by (cases dir) (simp_all add: parent_def is_anchor_def)

text \<open>
  Claim C1 says that a qualified target is walked from the corpus root and an
  unqualified one looked up in the directory of the source document.  The code joins
  the segments with the operator \<^verbatim>\<open>/\<close> of \<^verbatim>\<open>pathlib\<close>, for which a segment that
  begins with a slash replaces the path walked so far.  The link \<open>a:/etc:c\<close> is
  \<open>Resolved\<close> to the file \<^verbatim>\<open>/etc/c.txt\<close> outside the corpus, where the order of the
  claim finds no \<^verbatim>\<open>a//etc/c.txt\<close> below the corpus root and falls back to the only
  page named \<open>c\<close>; the unqualified link \<^verbatim>\<open>/tmp/x\<close> of the page \<open>d/y\<close> is \<open>Resolved\<close> to
  \<^verbatim>\<open>/tmp/x.txt\<close>, which is not in the directory of \<open>d/y\<close>.
\<close>

theorem absolute_segment_leaves_the_corpus:
  "resolve_link_target ex_root (\<lambda>p. p = [''/'', ''etc'', ''c.txt'']) ''a:/etc:c''
       [''/'', ''S'', ''d'', ''y.txt''] (build_name_index ex_files)
     = Resolved [''/'', ''etc'', ''c.txt'']
   \<and> colon_joined [''a'', ''/etc'', ''c''] = ''a:/etc:c''
   \<and> spec_resolve ex_root (\<lambda>p. p = [''/'', ''etc'', ''c.txt'']) [''a'', ''/etc''] ''c''
       [''/'', ''S'', ''d''] (build_name_index ex_files)
     = Resolved [''/'', ''S'', ''e'', ''c.txt'']
   \<and> \<not> prefix ex_root [''/'', ''etc'', ''c.txt'']
   \<and> resolve_link_target ex_root (\<lambda>p. p = [''/'', ''tmp'', ''x.txt'']) ''/tmp/x''
       [''/'', ''S'', ''d'', ''y.txt''] (build_name_index ex_files)
     = Resolved [''/'', ''tmp'', ''x.txt'']
   \<and> spec_resolve ex_root (\<lambda>p. p = [''/'', ''tmp'', ''x.txt'']) [] ''/tmp/x''
       [''/'', ''S'', ''d''] (build_name_index ex_files)
     = Unresolved"
  by code_simp

text \<open>
  Claim C1, amended.  For every link whose target has no slash in any of its
  segments (the pieces between its colons), and every source document,
  \<open>resolve_link_target\<close> follows the order of section 4.3, the first success winning:
  a target with a colon is walked from the corpus root through its directory
  segments (an empty segment and the segment \<^verbatim>\<open>.\<close> stay in the directory reached),
  \<^verbatim>\<open>.txt\<close> is appended to the final segment, and the link is \<open>Resolved\<close> if that path
  exists; a target without a colon is looked up, with \<^verbatim>\<open>.txt\<close> appended, in the
  directory of the source document; when that fails, the final segment is looked up
  in the Name Index: no match is \<open>Unresolved\<close>, exactly one is \<open>Resolved\<close>, more than
  one is \<open>Ambiguous\<close> with all candidates.
\<close>

theorem resolve_link_target_follows_spec_order:
  assumes "\<forall>segment \<in> set (dirs @ [final]). CHR '':'' \<notin> set segment \<and> CHR ''/'' \<notin> set segment"
    and "source_dir \<noteq> []"
  shows "resolve_link_target root ex (colon_joined (dirs @ [final])) (source_dir @ [file_name])
             name_to_files
           = spec_resolve root ex dirs final source_dir name_to_files"
proof -
  let ?link = "colon_joined (dirs @ [final])"
  from assms(1) have nc: "\<forall>segment \<in> set (dirs @ [final]). CHR '':'' \<notin> set segment"
    and ns: "\<forall>segment \<in> set dirs. CHR ''/'' \<notin> set segment"
    and nf: "CHR ''/'' \<notin> set final"
    by auto
  have sp: "split_on CHR '':'' ?link = dirs @ [final]"
    by (rule split_on_colon_joined) (use nc in auto)
  note q = colon_joined_qualified [OF nc]
  show ?thesis
  proof (cases "dirs = []")
    case True
    with q have "CHR '':'' \<notin> set ?link" by simp
    moreover from True have "?link = final" by simp
    ultimately show ?thesis
      using True
      unfolding resolve_link_target_def spec_resolve_def Let_def lookup_eq_spec
      by (simp add: parent_file [OF assms(2)] path_div_file [OF nf])
  next
    case False
    with q have c: "CHR '':'' \<in> set ?link" by simp
    have w: "walk_parts root (split_on CHR '':'' ?link) = foldl enter root dirs @ [final @ ''.txt'']"
      unfolding sp
      by (simp add: walk_parts_foldl path_div_segments [OF ns] path_div_file [OF nf])
    from False c show ?thesis
      unfolding resolve_link_target_def spec_resolve_def Let_def lookup_eq_spec w
      by (simp add: sp)
  qed
qed

text \<open>
  In the example corpus, seen from the page \<open>d/y\<close>: the link \<open>e:c\<close> is found from the
  root, the link \<open>:x\<close> is the root page \<open>x\<close>, the link \<open>x\<close> is the page \<open>x\<close> of the
  directory \<open>d\<close>, the link \<open>c\<close> has no file in \<open>d\<close> and one page of that name, the link
  \<open>z:x\<close> has no literal target and two pages named \<open>x\<close>, and no page is named \<open>q\<close>.
\<close>

theorem resolve_link_target_follows_spec_order_witness:
  "map (\<lambda>link. resolve_link_target ex_root ex_exists link [''/'', ''S'', ''d'', ''y.txt'']
                 (build_name_index ex_files))
       [''e:c'', '':x'', ''x'', ''c'', ''z:x'', ''q'']
     = [Resolved [''/'', ''S'', ''e'', ''c.txt''], Resolved [''/'', ''S'', ''x.txt''],
        Resolved [''/'', ''S'', ''d'', ''x.txt''], Resolved [''/'', ''S'', ''e'', ''c.txt''],
        Ambiguous [[''/'', ''S'', ''x.txt''], [''/'', ''S'', ''d'', ''x.txt'']], Unresolved]"
proof -
  let ?idx = "build_name_index ex_files"
  let ?dir = "[''/'', ''S'', ''d'']"
  have src: "?dir \<noteq> []"
    by simp
  have r: "resolve_link_target ex_root ex_exists (colon_joined (dirs @ [final])) (?dir @ [''y.txt'']) ?idx
             = spec_resolve ex_root ex_exists dirs final ?dir ?idx"
    if "\<forall>segment \<in> set (dirs @ [final]). CHR '':'' \<notin> set segment \<and> CHR ''/'' \<notin> set segment"
    for dirs final
    using resolve_link_target_follows_spec_order [OF that src] .
  have "resolve_link_target ex_root ex_exists ''e:c'' (?dir @ [''y.txt'']) ?idx
          = Resolved [''/'', ''S'', ''e'', ''c.txt'']"
    using r [of "[''e'']" "''c''"] by (simp, code_simp)
  moreover have "resolve_link_target ex_root ex_exists '':x'' (?dir @ [''y.txt'']) ?idx
          = Resolved [''/'', ''S'', ''x.txt'']"
    using r [of "[[]]" "''x''"] by (simp, code_simp)
  moreover have "resolve_link_target ex_root ex_exists ''x'' (?dir @ [''y.txt'']) ?idx
          = Resolved [''/'', ''S'', ''d'', ''x.txt'']"
    using r [of "[]" "''x''"] by (simp, code_simp)
  moreover have "resolve_link_target ex_root ex_exists ''c'' (?dir @ [''y.txt'']) ?idx
          = Resolved [''/'', ''S'', ''e'', ''c.txt'']"
    using r [of "[]" "''c''"] by (simp, code_simp)
  moreover have "resolve_link_target ex_root ex_exists ''z:x'' (?dir @ [''y.txt'']) ?idx
          = Ambiguous [[''/'', ''S'', ''x.txt''], [''/'', ''S'', ''d'', ''x.txt'']]"
    using r [of "[''z'']" "''x''"] by (simp, code_simp)
  moreover have "resolve_link_target ex_root ex_exists ''q'' (?dir @ [''y.txt'']) ?idx
          = Unresolved"
    using r [of "[]" "''q''"] by (simp, code_simp)
  ultimately show ?thesis
    by simp
qed

subsection \<open>The Name Index\<close>



lemma rfind_append_dot:
  assumes "c \<notin> set ys"
  shows "rfind c (xs @ c # ys) = Some (length xs)"
proof -
  have tw: "c \<notin> set zs \<Longrightarrow> takeWhile (\<lambda>x. x \<noteq> c) (zs @ c # ws) = zs" for zs ws :: string
    by (induction zs) auto
  have "takeWhile (\<lambda>x. x \<noteq> c) (rev ys @ c # rev xs) = rev ys"
    using assms by (intro tw) simp
  then show ?thesis
    by (simp add: rfind_def)
qed

text \<open>The short name of a file \<open>c.txt\<close> is \<open>c\<close>, for a non-empty \<open>c\<close>.\<close>

lemma name_stem_txt: "c \<noteq> [] \<Longrightarrow> name_stem (c @ ''.txt'') = c"
  using rfind_append_dot [of "CHR ''.''" "''txt''" c]
  by (simp add: name_stem_def)

lemma stem_txt_file: "c \<noteq> [] \<Longrightarrow> stem (dir @ [c @ ''.txt'']) = c"
  by (auto simp: stem_def path_name_def is_anchor_def name_stem_txt)



section \<open>The canonical formatter\<close>

lemma needs_custom_display_eq:
  "display_name \<noteq> Some [] \<Longrightarrow> needs_custom_display display_name name = label_differs display_name name"
  by (cases display_name) (auto simp: needs_custom_display_def label_differs_def)

lemma join_with_colon: "join_with '':'' segments = colon_joined segments"
  by (induction segments rule: colon_joined.induct) simp_all

lemma collapse_plain: "''..'' \<notin> set segments \<Longrightarrow> collapse up segments = rev up @ segments"
  by (induction segments arbitrary: up) auto

lemma normal_directory: "normal_document root p \<Longrightarrow> directory root p = doc_dirs root p"
  by (simp add: normal_document_def directory_def collapse_plain)

text \<open>What \<^verbatim>\<open>pathlib\<close> gives for the path of a document.\<close>

lemma document_parts:
  assumes "is_document root p"
  shows "parent p = root @ doc_dirs root p"
    and "stem p = doc_name p"
    and "relative_to p root = Inr (doc_dirs root p @ [last p])"
    and "with_suffix_empty (doc_dirs root p @ [last p]) = Inr (doc_dirs root p @ [doc_name p])"
proof -
  from assms obtain r where p: "p = root @ r" and r: "r \<noteq> []"
    by (auto simp: is_document_def prefix_def)
  from assms obtain c where l: "last p = c @ ''.txt''" and c: "c \<noteq> []"
    by (auto simp: is_document_def suffix_def)
  from p r have pne: "p \<noteq> []" by simp
  have na: "\<not> is_anchor p"
  proof
    assume "is_anchor p"
    then have "last p = ''/'' \<or> last p = ''//''"
      by (auto simp: is_anchor_def)
    with l show False
      by (cases c) auto
  qed
  from p r have bl: "butlast p = root @ butlast r"
    by (simp add: butlast_append)
  then have dd: "doc_dirs root p = butlast r"
    by (simp add: doc_dirs_def)
  from p r have lr: "last r = last p" by simp
  from l have dn: "doc_name p = c"
    by (simp add: doc_name_def)
  from na bl dd show "parent p = root @ doc_dirs root p"
    by (simp add: parent_def)
  from pne na l c show st: "stem p = doc_name p"
    by (simp add: stem_def path_name_def name_stem_txt dn)
  from p r dd lr show "relative_to p root = Inr (doc_dirs root p @ [last p])"
    by (simp add: relative_to_def)
  have "\<not> is_anchor (doc_dirs root p @ [last p])"
  proof
    assume "is_anchor (doc_dirs root p @ [last p])"
    then have "last (doc_dirs root p @ [last p]) = ''/'' \<or> last (doc_dirs root p @ [last p]) = ''//''"
      unfolding is_anchor_def by (metis last.simps)
    then have "last p = ''/'' \<or> last p = ''//''"
      by simp
    with l show False
      by (cases c) auto
  qed
  then have "path_name (doc_dirs root p @ [last p]) = last p"
    by (simp add: path_name_def)
  with l c show "with_suffix_empty (doc_dirs root p @ [last p]) = Inr (doc_dirs root p @ [doc_name p])"
    by (simp add: with_suffix_empty_def name_stem_txt dn)
qed

text \<open>
  Claim C3 says that the formatter emits the bare form when source and target
  directories are equal.  The code compares the parents of the two paths as they
  are written: the target \<^verbatim>\<open>d/../x.txt\<close>, to which the resolver resolves the link
  \<open>d:..:x\<close>, lies in the corpus root, the directory of the source \<^verbatim>\<open>y.txt\<close>, and the
  formatter gives \<open>[[d:..:x|x]]\<close> where the rule of the claim gives \<open>[[x]]\<close>.
\<close>

theorem unnormalised_target_is_not_same_directory:
  "get_correct_link_format ex_root [''/'', ''S'', ''y.txt''] [''/'', ''S'', ''d'', ''..'', ''x.txt'']
       None
     = Inr ''[[d:..:x|x]]''
   \<and> spec_format ex_root [''/'', ''S'', ''y.txt''] [''/'', ''S'', ''d'', ''..'', ''x.txt''] None
     = ''[[x]]''
   \<and> directory ex_root [''/'', ''S'', ''y.txt''] = []
   \<and> directory ex_root [''/'', ''S'', ''d'', ''..'', ''x.txt''] = []
   \<and> is_document ex_root [''/'', ''S'', ''d'', ''..'', ''x.txt'']
   \<and> resolve_link_target ex_root (\<lambda>p. p = [''/'', ''S'', ''d'', ''..'', ''x.txt'']) ''d:..:x''
       [''/'', ''S'', ''y.txt''] (build_name_index ex_files)
     = Resolved [''/'', ''S'', ''d'', ''..'', ''x.txt'']"
  by code_simp

text \<open>
  Claim C3, amended.  For every source document and target document given by
  normal paths (without a segment \<^verbatim>\<open>..\<close>) and every optional label (\<open>None\<close>, or a
  non-empty text as the link pattern yields it), \<open>get_correct_link_format\<close> returns
  the canonical text \<open>spec_format\<close> of section 4.4: when source and target directories
  are equal, \<open>[[name|label]]\<close> if a label was given that differs from the target's
  short name, else \<open>[[name]]\<close>; when they differ, the colon-joined qualified path from
  the corpus root, with the given label if it differs from the short name, else with
  the short name as label.  The result depends on the source only through its
  directory.
\<close>

theorem get_correct_link_format_is_canonical:
  assumes "normal_document sd source_file" and "normal_document sd target_file"
    and "display_name \<noteq> Some []"
  shows "get_correct_link_format sd source_file target_file display_name
           = Inr (spec_format sd source_file target_file display_name)
       \<and> (\<forall>other. normal_document sd other \<and> doc_dirs sd other = doc_dirs sd source_file \<longrightarrow>
            get_correct_link_format sd other target_file display_name
              = get_correct_link_format sd source_file target_file display_name)"
proof -
  from assms(2) have t: "is_document sd target_file"
    by (simp add: normal_document_def)
  have eq: "get_correct_link_format sd src target_file display_name
           = Inr (spec_format sd src target_file display_name)"
    if "normal_document sd src" for src
  proof -
    from that have s: "is_document sd src"
      by (simp add: normal_document_def)
    show ?thesis
      by (simp add: get_correct_link_format_def spec_format_def Let_def
          document_parts [OF t] document_parts(1) [OF s]
          normal_directory [OF that] normal_directory [OF assms(2)]
          needs_custom_display_eq [OF assms(3)] qualified_path_def join_with_colon)
  qed
  have same: "get_correct_link_format sd other target_file display_name
          = get_correct_link_format sd source_file target_file display_name"
    if n: "normal_document sd other" and d: "doc_dirs sd other = doc_dirs sd source_file" for other
  proof -
    have "directory sd other = directory sd source_file"
      unfolding normal_directory [OF n] normal_directory [OF assms(1)] by (rule d)
    then have "spec_format sd other target_file display_name
          = spec_format sd source_file target_file display_name"
      unfolding spec_format_def by simp
    then show ?thesis
      unfolding eq [OF n] eq [OF assms(1)] by simp
  qed
  show ?thesis
  proof (intro conjI allI impI)
    show "get_correct_link_format sd source_file target_file display_name
           = Inr (spec_format sd source_file target_file display_name)"
      by (rule eq [OF assms(1)])
  next
    fix other
    assume "normal_document sd other \<and> doc_dirs sd other = doc_dirs sd source_file"
    then show "get_correct_link_format sd other target_file display_name
              = get_correct_link_format sd source_file target_file display_name"
      using same by blast
  qed
qed

text \<open>
  From the page \<open>d/y\<close> of the example: a link to the page \<open>x\<close> of the same directory
  with a label of its own and with its short name as label, and a link to the page
  \<open>c\<close> of the directory \<open>e\<close> without label and with a label.
\<close>

theorem get_correct_link_format_is_canonical_witness:
  "map (\<lambda>(target, label).
          get_correct_link_format ex_root [''/'', ''S'', ''d'', ''y.txt''] target label)
     [([''/'', ''S'', ''d'', ''x.txt''], Some ''the x''), ([''/'', ''S'', ''d'', ''x.txt''], Some ''x''),
      ([''/'', ''S'', ''e'', ''c.txt''], None), ([''/'', ''S'', ''e'', ''c.txt''], Some ''the c'')]
   = [Inr ''[[x|the x]]'', Inr ''[[x]]'', Inr ''[[e:c|c]]'', Inr ''[[e:c|the c]]'']"
proof -
  let ?y = "[''/'', ''S'', ''d'', ''y.txt'']"
  have y: "normal_document ex_root ?y"
    by code_simp
  have x: "normal_document ex_root [''/'', ''S'', ''d'', ''x.txt'']"
    by code_simp
  have c: "normal_document ex_root [''/'', ''S'', ''e'', ''c.txt'']"
    by code_simp
  have "get_correct_link_format ex_root ?y [''/'', ''S'', ''d'', ''x.txt''] (Some ''the x'')
          = Inr ''[[x|the x]]''"
    apply (subst conjunct1 [OF get_correct_link_format_is_canonical [OF y x]])
     apply simp
    apply code_simp
    done
  moreover have "get_correct_link_format ex_root ?y [''/'', ''S'', ''d'', ''x.txt''] (Some ''x'')
          = Inr ''[[x]]''"
    apply (subst conjunct1 [OF get_correct_link_format_is_canonical [OF y x]])
     apply simp
    apply code_simp
    done
  moreover have "get_correct_link_format ex_root ?y [''/'', ''S'', ''e'', ''c.txt''] None
          = Inr ''[[e:c|c]]''"
    apply (subst conjunct1 [OF get_correct_link_format_is_canonical [OF y c]])
     apply simp
    apply code_simp
    done
  moreover have "get_correct_link_format ex_root ?y [''/'', ''S'', ''e'', ''c.txt''] (Some ''the c'')
          = Inr ''[[e:c|the c]]''"
    apply (subst conjunct1 [OF get_correct_link_format_is_canonical [OF y c]])
     apply simp
    apply code_simp
    done
  ultimately show ?thesis
    by simp
qed

section \<open>The link pattern and the Backlinks literal\<close>

lemma find_sub_Some:
  "find_sub pat s = Some i \<Longrightarrow> first_occurrence pat s i"
proof (induction s arbitrary: i)
  case Nil
  then show ?case by (auto simp: first_occurrence_def split: if_splits)
next
  case (Cons c cs)
  show ?case
  proof (cases "prefix pat (c # cs)")
    case True
    with Cons.prems show ?thesis by (auto simp: first_occurrence_def)
  next
    case False
    with Cons.prems obtain k where k: "find_sub pat cs = Some k" "i = Suc k"
      by auto
    from Cons.IH [OF k(1)] have "first_occurrence pat cs k" .
    with False k(2) show ?thesis
      by (auto simp: first_occurrence_def less_Suc_eq_0_disj)
  qed
qed

lemma find_sub_None:
  "find_sub pat s = None \<Longrightarrow> j \<le> length s \<Longrightarrow> \<not> prefix pat (drop j s)"
proof (induction s arbitrary: j)
  case Nil
  then show ?case by (auto split: if_splits)
next
  case (Cons c cs)
  then show ?case
    by (cases j) (auto split: if_splits)
qed

lemma match_link_suffix:
  assumes "match_link np s = Some (t, l, r)"
  shows "suffix r s \<and> length r + 2 \<le> length s"
proof -
  let ?P = "\<lambda>c. c \<noteq> CHR '']'' \<and> c \<noteq> CHR ''|''"
  let ?Q = "\<lambda>c. c \<noteq> CHR '']''"
  let ?r1 = "dropWhile ?P (drop 2 s)"
  let ?r2 = "dropWhile ?Q (drop 1 ?r1)"
  from assms have pre: "prefix ''[['' s"
    by (auto simp: match_link_def split: if_splits)
  then have len2: "2 \<le> length s"
    by (auto simp: prefix_def)
  have s1: "suffix ?r1 s"
    by (rule suffix_order.trans [OF suffix_dropWhile suffix_drop])
  have s2: "suffix ?r2 s"
    by (rule suffix_order.trans [OF suffix_dropWhile
          suffix_order.trans [OF suffix_drop s1]])
  have l1: "length ?r1 + 2 \<le> length s"
    using length_dropWhile_le [of ?P "drop 2 s"] len2 by simp
  have l2: "length ?r2 \<le> length ?r1"
    using length_dropWhile_le [of ?Q "drop 1 ?r1"] by simp
  from assms have cases: "r = drop 2 ?r1 \<or> r = drop 2 ?r2"
    by (simp add: match_link_def Let_def split: if_splits)
  then show ?thesis
  proof
    assume r: "r = drop 2 ?r1"
    have "suffix r s"
      unfolding r by (rule suffix_order.trans [OF suffix_drop s1])
    moreover have "length r + 2 \<le> length s"
      unfolding r using l1 by simp
    ultimately show ?thesis by simp
  next
    assume r: "r = drop 2 ?r2"
    have "suffix r s"
      unfolding r by (rule suffix_order.trans [OF suffix_drop s2])
    moreover have "length r + 2 \<le> length s"
      unfolding r using l1 l2 by simp
    ultimately show ?thesis by simp
  qed
qed

lemma suffix_take_drop:
  "suffix r s \<Longrightarrow> drop (length s - length r) s = r"
  by (auto simp: suffix_def)

lemma find_links_Nil [simp]: "find_links np pos [] = []"
  by (subst find_links.simps) simp

lemma find_links_None:
  "s \<noteq> [] \<Longrightarrow> match_link np s = None \<Longrightarrow> find_links np pos s = find_links np (Suc pos) (tl s)"
  by (subst find_links.simps) simp

lemma find_links_Some:
  "match_link np s = Some (t, l, r) \<Longrightarrow>
   find_links np pos s =
     \<lparr>m_start = pos, m_end = pos + (length s - length r),
      m_full_match = take (length s - length r) s, m_link_path = t, m_display_name = l\<rparr>
     # find_links np (pos + (length s - length r)) r"
  by (subst find_links.simps) (auto simp: match_link_def)

lemma link_span_simp:
  "link_span \<lparr>m_start = a, m_end = b, m_full_match = f, m_link_path = t, m_display_name = l\<rparr> = (a, b, f)"
  by (simp add: link_span_def)

lemma spans_ok_weaken: "spans_ok pos n fs \<Longrightarrow> pos' \<le> pos \<Longrightarrow> spans_ok pos' n fs"
  by (cases fs) auto

lemma find_links_spans:
  "spans_ok pos (pos + length s) (map link_span (find_links np pos s))"
proof (induction np pos s rule: find_links.induct)
  case (1 no_plus pos s)
  show ?case
  proof (cases "s = []")
    case True
    then show ?thesis by simp
  next
    case ne: False
    show ?thesis
    proof (cases "match_link no_plus s")
      case None
      from ne obtain c cs where s: "s = c # cs" by (cases s) auto
      from "1.IH"(1) [OF ne None]
      have "spans_ok (Suc pos) (Suc pos + length (tl s)) (map link_span (find_links no_plus (Suc pos) (tl s)))" .
      then have "spans_ok (Suc pos) (pos + length s) (map link_span (find_links no_plus (Suc pos) (tl s)))"
        unfolding s by simp
      then have "spans_ok pos (pos + length s) (map link_span (find_links no_plus (Suc pos) (tl s)))"
        by (rule spans_ok_weaken) simp
      then show ?thesis
        by (simp only: find_links_None [OF ne None])
    next
      case (Some m)
      obtain t l r where m: "m = (t, l, r)" by (cases m) auto
      from Some m have ml: "match_link no_plus s = Some (t, l, r)" by simp
      from match_link_suffix [OF ml] have len: "length r + 2 \<le> length s" by simp
      from "1.IH"(2) [OF ne Some m [symmetric] refl]
      have "spans_ok (pos + (length s - length r)) (pos + (length s - length r) + length r)
              (map link_span (find_links no_plus (pos + (length s - length r)) r))" .
      moreover from len have "pos + (length s - length r) + length r = pos + length s"
        by simp
      ultimately have "spans_ok (pos + (length s - length r)) (pos + length s)
              (map link_span (find_links no_plus (pos + (length s - length r)) r))"
        by simp
      with len show ?thesis
        by (simp add: find_links_Some [OF ml] link_span_simp)
    qed
  qed
qed


lemma spans_ok_mem:
  "spans_ok pos n fs \<Longrightarrow> (s, e, r) \<in> set fs \<Longrightarrow> pos \<le> s \<and> s \<le> e \<and> e \<le> n"
proof (induction fs arbitrary: pos)
  case Nil
  then show ?case by simp
next
  case (Cons f fs)
  obtain s' e' r' where f: "f = (s', e', r')" by (cases f) auto
  from Cons.prems f show ?case
    using Cons.IH [of e'] by auto
qed

lemma find_links_bounds:
  assumes "l \<in> set (find_links np pos s)"
  shows "pos \<le> m_start l \<and> m_start l \<le> m_end l \<and> m_end l \<le> pos + length s"
proof -
  from assms have "link_span l \<in> set (map link_span (find_links np pos s))"
    by simp
  then have "(m_start l, m_end l, m_full_match l) \<in> set (map link_span (find_links np pos s))"
    by (simp add: link_span_def)
  from spans_ok_mem [OF find_links_spans this] show ?thesis .
qed

text \<open>
  Claim C10.  Both verifiers cut the text at the first occurrence of the literal
  \<^verbatim>\<open>===== Backlinks =====\<close>, wherever it stands: when the literal occurs (at some
  index \<open>k\<close>), \<open>get_content_section\<close> splits the text at the first index \<open>i\<close> where it
  occurs, \<open>extract_links\<close> returns the targets of the links found before \<open>i\<close>, and
  every link the forward-link verifier parses ends at or before \<open>i\<close>: the links
  behind a mention of the literal are ignored.
\<close>

theorem backlinks_region_starts_at_first_occurrence:
  assumes "k \<le> length content" and "prefix ''===== Backlinks ====='' (drop k content)"
  shows "\<exists>i\<le>k. first_occurrence ''===== Backlinks ====='' content i
        \<and> get_content_section content = (take i content, drop i content)
        \<and> extract_links content file_path = map m_link_path (find_all_links (take i content))
        \<and> (\<forall>l \<in> set (find_all_links (fst (get_content_section content))). m_end l \<le> i)"
proof -
  let ?H = "''===== Backlinks =====''"
  from assms find_sub_None [of ?H content k] obtain i where i: "find_sub ?H content = Some i"
    by (cases "find_sub ?H content") auto
  from find_sub_Some [OF i] have fo: "first_occurrence ?H content i" .
  have ik: "i \<le> k"
  proof (rule ccontr)
    assume "\<not> i \<le> k"
    then have "k < i" by simp
    with fo assms(2) show False
      by (auto simp: first_occurrence_def)
  qed
  from fo have il: "i \<le> length content"
    by (simp add: first_occurrence_def)
  have sec: "get_content_section content = (take i content, drop i content)"
    by (simp add: get_content_section_def i)
  have ext: "extract_links content file_path = map m_link_path (find_all_links (take i content))"
    by (simp add: extract_links_def i find_all_links_def)
  have bound: "m_end l \<le> i" if "l \<in> set (find_all_links (take i content))" for l
    using find_links_bounds [of l True 0 "take i content"] that il
    by (simp add: find_all_links_def)
  from ik fo sec ext bound show ?thesis
    by auto
qed


text \<open>A page that mentions the literal in its text: the link behind it is not seen.\<close>

theorem backlinks_region_starts_at_first_occurrence_witness:
  "(\<exists>i\<le>9. first_occurrence ''===== Backlinks ====='' ''a [[x]]. ===== Backlinks ===== b [[y]]'' i
        \<and> get_content_section ''a [[x]]. ===== Backlinks ===== b [[y]]''
            = (take i ''a [[x]]. ===== Backlinks ===== b [[y]]'',
               drop i ''a [[x]]. ===== Backlinks ===== b [[y]]''))
   \<and> extract_links ''a [[x]]. ===== Backlinks ===== b [[y]]'' [] = [''x'']"
proof -
  let ?c = "''a [[x]]. ===== Backlinks ===== b [[y]]''"
  have a: "9 \<le> length ?c"
    by simp
  have b: "prefix ''===== Backlinks ====='' (drop 9 ?c)"
    by code_simp
  have c: "extract_links ?c [] = [''x'']"
    by code_simp
  from backlinks_region_starts_at_first_occurrence [OF a b, of "[]"] c
  show ?thesis by blast
qed

section \<open>The link checker and the broken-link finder\<close>






section \<open>The backlink fixer\<close>

lemma get_link_format_document:
  assumes "normal_document sd source" and "normal_document sd target"
  shows "get_link_format sd source target = Inr (spec_format sd source target None)"
proof -
  from assms have s: "is_document sd source" and t: "is_document sd target"
    by (simp_all add: normal_document_def)
  show ?thesis
    by (simp add: get_link_format_def spec_format_def Let_def label_differs_def
        document_parts [OF t] document_parts(1) [OF s]
        normal_directory [OF assms(1)] normal_directory [OF assms(2)]
        qualified_path_def join_with_colon)
qed

lemma format_links_documents:
  assumes "normal_document sd target_file" and "list_all (normal_document sd) sources"
  shows "format_links sd target_file sources
           = Inr (map (\<lambda>source. spec_format sd target_file source None) sources)"
  using assms(2)
  by (induction sources) (simp_all add: get_link_format_document [OF assms(1)])

lemma join_lines:
  "links \<noteq> [] \<Longrightarrow> join_with ''\<newline>'' links @ ''\<newline>'' = concat (map (\<lambda>l. l @ ''\<newline>'') links)"
  by (induction "''\<newline>''" links rule: join_with.induct) simp_all



lemma first_occurrence_find_sub:
  assumes "first_occurrence pat s i"
  shows "find_sub pat s = Some i"
proof (cases "find_sub pat s")
  case None
  from find_sub_None [OF None, of i] assms show ?thesis
    by (simp add: first_occurrence_def)
next
  case (Some j)
  from find_sub_Some [OF Some] have "first_occurrence pat s j" .
  with assms have "i = j"
    unfolding first_occurrence_def by (meson linorder_neqE_nat)
  with Some show ?thesis by simp
qed

lemma no_occurrence_find_sub:
  assumes "\<forall>j\<le>length s. \<not> prefix pat (drop j s)"
  shows "find_sub pat s = None"
proof (cases "find_sub pat s")
  case None
  then show ?thesis .
next
  case (Some i)
  from find_sub_Some [OF Some] assms show ?thesis
    by (auto simp: first_occurrence_def)
qed

lemma fix_backlinks_in_file_other:
  assumes "fix_backlinks_in_file sd target_file expected st = Inr (b, st')" and "f \<noteq> target_file"
  shows "st' f = st f"
  using assms
  by (auto simp: fix_backlinks_in_file_def Let_def split: option.splits if_splits sum.splits)

lemma report_and_fix_other:
  assumes "report_and_fix sd fix_mode issues st = Inr st'" and "f \<notin> i_file ` set issues"
  shows "st' f = st f"
  using assms
proof (induction issues arbitrary: st)
  case Nil
  then show ?case by simp
next
  case (Cons issue issues)
  show ?case
  proof (cases fix_mode)
    case False
    with Cons.prems Cons.IH [of st] show ?thesis
      by (auto split: if_splits)
  next
    case True
    with Cons.prems obtain b st1 where
      fx: "fix_backlinks_in_file sd (i_file issue) (i_expected issue) st = Inr (b, st1)"
      and rest: "report_and_fix sd fix_mode issues st1 = Inr st'"
      by (auto split: if_splits sum.splits)
    from Cons.prems(2) have "f \<noteq> i_file issue" by auto
    from fix_backlinks_in_file_other [OF fx this] have "st1 f = st f" .
    moreover from Cons.IH [OF rest] Cons.prems(2) have "st' f = st1 f" by simp
    ultimately show ?thesis by simp
  qed
qed

lemma second_pass_has_block:
  assumes "issue \<in> set (second_pass set_iter sd ex name_to_files reverse_links st files)"
  shows "find_sub ''===== Backlinks =====\<newline>'' (st (i_file issue)) \<noteq> None"
proof -
  from assms obtain target_file where
    m0: "issue \<in> set (case check_backlinks set_iter sd ex name_to_files reverse_links st target_file of
                         None \<Rightarrow> [] | Some issues \<Rightarrow> issues)"
    by (auto simp: second_pass_def)
  then obtain issues where
    c: "check_backlinks set_iter sd ex name_to_files reverse_links st target_file = Some issues"
    and m: "issue \<in> set issues"
    by (cases "check_backlinks set_iter sd ex name_to_files reverse_links st target_file") auto
  from c m have "i_file issue = target_file"
    by (auto simp: check_backlinks_def Let_def split: option.splits if_splits)
  with c show ?thesis
    by (auto simp: check_backlinks_def Let_def split: option.splits)
qed

lemma main_backlinks_keeps_untracked:
  assumes "main_backlinks set_iter sd ex files fix_mode st = Inr (code, issues, st')"
    and "find_sub ''===== Backlinks =====\<newline>'' (st f) = None"
  shows "st' f = st f \<and> f \<notin> i_file ` set issues"
proof -
  obtain reverse_links unresolved_links where
    fp: "first_pass sd ex (build_name_index files) st files (\<lambda>p. [], []) = (reverse_links, unresolved_links)"
    by (cases "first_pass sd ex (build_name_index files) st files (\<lambda>p. [], [])") auto
  let ?issues = "second_pass set_iter sd ex (build_name_index files) reverse_links st files"
  from assms(1) fp have iss: "issues = ?issues"
    by (auto simp: main_backlinks_def Let_def split: sum.splits if_splits)
  have nf: "f \<notin> i_file ` set ?issues"
  proof
    assume "f \<in> i_file ` set ?issues"
    then obtain issue where "issue \<in> set ?issues" and "f = i_file issue"
      by auto
    with second_pass_has_block [of issue set_iter sd ex "build_name_index files" reverse_links st files]
      assms(2)
    show False by simp
  qed
  from assms(1) fp have "st' = st \<or> report_and_fix sd fix_mode ?issues st = Inr st'"
    by (auto simp: main_backlinks_def Let_def split: sum.splits if_splits)
  with report_and_fix_other [OF _ nf] have "st' f = st f"
    by auto
  with nf iss show ?thesis by simp
qed

section \<open>The forward-link fixer\<close>

lemma spans_ok_starts:
  "spans_ok pos n fs \<Longrightarrow> f \<in> set fs \<Longrightarrow> pos \<le> fst f"
proof (induction fs arbitrary: pos)
  case Nil
  then show ?case by simp
next
  case (Cons g fs)
  obtain s e r where g: "g = (s, e, r)" by (cases g) auto
  from Cons.prems g show ?case
    using Cons.IH [of e] by auto
qed

lemma spans_ok_filter:
  "spans_ok pos n (map sp xs) \<Longrightarrow> spans_ok pos n (map sp (filter P xs))"
proof (induction xs arbitrary: pos)
  case Nil
  then show ?case by simp
next
  case (Cons x xs)
  obtain s e r where x: "sp x = (s, e, r)" by (cases "sp x") auto
  from Cons.prems x have a: "pos \<le> s" "s < e" "e \<le> n" and b: "spans_ok e n (map sp xs)"
    by auto
  from Cons.IH [OF b] have c: "spans_ok e n (map sp (filter P xs))" .
  show ?case
  proof (cases "P x")
    case True
    with a c x show ?thesis by simp
  next
    case False
    from spans_ok_weaken [OF c, of pos] a have "spans_ok pos n (map sp (filter P xs))"
      by simp
    with False show ?thesis by simp
  qed
qed

lemma apply_fix_wrong_format:
  "is_wrong_format i \<Longrightarrow> fix_span i = (s, e, r) \<Longrightarrow> apply_fix c i = take s c @ r @ drop e c"
  by (cases i) auto

lemma foldl_apply_fix_render:
  assumes "list_all is_wrong_format fs" and "spans_ok pos (length c) (map fix_span fs)"
  shows "foldl apply_fix c (rev fs) = take pos c @ render pos c (map fix_span fs)"
  using assms
proof (induction fs arbitrary: pos)
  case Nil
  then show ?case by simp
next
  case (Cons i fs)
  obtain s e r where sp: "fix_span i = (s, e, r)" by (cases "fix_span i") auto
  from Cons.prems sp have a: "pos \<le> s" "s < e" "e \<le> length c"
    and b: "spans_ok e (length c) (map fix_span fs)"
    and wf: "is_wrong_format i" "list_all is_wrong_format fs"
    by auto
  from Cons.IH [OF wf(2) b]
  have ih: "foldl apply_fix c (rev fs) = take e c @ render e c (map fix_span fs)" .
  have "foldl apply_fix c (rev (i # fs)) = apply_fix (foldl apply_fix c (rev fs)) i"
    by simp
  also have "\<dots> = take s (take e c @ render e c (map fix_span fs)) @ r
                 @ drop e (take e c @ render e c (map fix_span fs))"
    unfolding ih by (rule apply_fix_wrong_format [OF wf(1) sp])
  also have "take s (take e c @ render e c (map fix_span fs)) = take s c"
    using a by (simp add: min_def)
  also have "drop e (take e c @ render e c (map fix_span fs)) = render e c (map fix_span fs)"
    using a by simp
  finally have l: "foldl apply_fix c (rev (i # fs)) = take s c @ r @ render e c (map fix_span fs)" .
  have "take pos c @ take (s - pos) (drop pos c) = take s c"
    using a by (metis le_add_diff_inverse take_add)
  then have "take pos c @ render pos c (map fix_span (i # fs))
               = take s c @ r @ render e c (map fix_span fs)"
    by (simp add: sp)
  with l show ?case by simp
qed

lemma insort_key_last:
  fixes g :: "'a \<Rightarrow> int"
  shows "\<forall>y \<in> set ys. g y < g x \<Longrightarrow> insort_key g x ys = ys @ [x]"
  by (induction ys) auto

lemma sort_key_descending:
  fixes g :: "'a \<Rightarrow> int"
  shows "sorted_wrt (\<lambda>a b. g b < g a) xs \<Longrightarrow> sort_key g xs = rev xs"
proof (induction xs)
  case Nil
  show ?case by simp
next
  case (Cons x xs)
  then have "sort_key g xs = rev xs" and "\<forall>y \<in> set xs. g y < g x"
    by auto
  then show ?case
    by (simp add: insort_key_last)
qed

lemma spans_ok_sorted:
  "spans_ok pos n (map fix_span is) \<Longrightarrow>
   sorted_wrt (\<lambda>a b. - int (m_start (issue_link b)) < - int (m_start (issue_link a))) is"
proof (induction "is" arbitrary: pos)
  case Nil
  show ?case by simp
next
  case (Cons i "is")
  obtain s e r where sp: "fix_span i = (s, e, r)" by (cases "fix_span i") auto
  have st: "fst (fix_span j) = m_start (issue_link j)" for j
    by (cases j) auto
  from Cons.prems sp have a: "s < e" and b: "spans_ok e n (map fix_span is)"
    by auto
  have "m_start (issue_link i) < m_start (issue_link j)" if "j \<in> set is" for j
  proof -
    from that have "fix_span j \<in> set (map fix_span is)" by simp
    from spans_ok_starts [OF b this] have "e \<le> m_start (issue_link j)"
      by (simp add: st)
    moreover from sp have "m_start (issue_link i) = s"
      using st [of i] by simp
    ultimately show ?thesis using a by simp
  qed
  with Cons.IH [OF b] show ?case by simp
qed


lemma fix_span_link:
  "\<exists>r. fix_span i = (m_start (issue_link i), m_end (issue_link i), r)"
  by (cases i) auto

lemma file_issues_Cons:
  assumes "file_issues sd ex source_file name_to_files (link # links) = Inr issues"
  obtains issues' where "file_issues sd ex source_file name_to_files links = Inr issues'"
    and "issues = issues' \<or> (\<exists>i. issues = i # issues' \<and> issue_link i = link)"
  using assms
  by (auto split: resolution.splits sum.splits if_splits)

lemma file_issues_spans:
  assumes "spans_ok pos n (map link_span links)"
    and "file_issues sd ex source_file name_to_files links = Inr issues"
  shows "spans_ok pos n (map fix_span issues)"
  using assms
proof (induction links arbitrary: pos issues)
  case Nil
  then show ?case by simp
next
  case (Cons link links)
  from Cons.prems(1) have a: "pos \<le> m_start link" "m_start link < m_end link" "m_end link \<le> n"
    and b: "spans_ok (m_end link) n (map link_span links)"
    by (simp_all add: link_span_def [of link])
  from Cons.prems(2) obtain issues' where
    rest: "file_issues sd ex source_file name_to_files links = Inr issues'"
    and shape: "issues = issues' \<or> (\<exists>i. issues = i # issues' \<and> issue_link i = link)"
    by (rule file_issues_Cons)
  from Cons.IH [OF b rest] have ih: "spans_ok (m_end link) n (map fix_span issues')" .
  from shape show ?case
  proof
    assume "issues = issues'"
    with spans_ok_weaken [OF ih, of pos] a show ?thesis by simp
  next
    assume "\<exists>i. issues = i # issues' \<and> issue_link i = link"
    then obtain i where i: "issues = i # issues'" "issue_link i = link" by auto
    from fix_span_link [of i] i(2) obtain r where "fix_span i = (m_start link, m_end link, r)"
      by auto
    with i(1) a ih show ?thesis by simp
  qed
qed

lemma fixable_issues_render:
  assumes fi: "file_issues sd ex source_file name_to_files (find_all_links cs) = Inr issues"
  shows "sort_reverse_start (filter is_wrong_format issues) = rev (filter is_wrong_format issues)"
    and "spans_ok 0 (length cs) (map fix_span (filter is_wrong_format issues))"
    and "foldl apply_fix cs (rev (filter is_wrong_format issues))
          = render 0 cs (map fix_span (filter is_wrong_format issues))"
proof -
  let ?fx = "filter is_wrong_format issues"
  have "spans_ok 0 (0 + length cs) (map link_span (find_links True 0 cs))"
    by (rule find_links_spans)
  then have "spans_ok 0 (length cs) (map link_span (find_all_links cs))"
    by (simp add: find_all_links_def)
  from file_issues_spans [OF this fi] have "spans_ok 0 (length cs) (map fix_span issues)" .
  then show sp: "spans_ok 0 (length cs) (map fix_span ?fx)"
    by (rule spans_ok_filter)
  from sort_key_descending [OF spans_ok_sorted [OF sp]]
  show "sort_reverse_start ?fx = rev ?fx"
    by (simp add: sort_reverse_start_def)
  have "list_all is_wrong_format ?fx"
    by (simp add: list_all_iff)
  from foldl_apply_fix_render [OF this sp]
  show "foldl apply_fix cs (rev ?fx) = render 0 cs (map fix_span ?fx)"
    by simp
qed

text \<open>
  Claim C7.  In fix mode \<open>check_and_fix_file\<close> applies the fixes of all links of wrong
  format in one pass: the sorted list \<open>fixable_issues\<close> is the list of these issues in
  reverse order of their spans, the spans are disjoint and ascending, and the text
  built by the loop is \<open>render\<close>, the content section with every such span replaced
  by its correct text and all other text kept.  The file is written only if there is
  at least one such issue, and what is written is that text followed by the original
  Backlinks section.
\<close>

theorem check_and_fix_file_rewrites_once:
  "check_and_fix_file sd ex source_file name_to_files True st =
     (case forward_issues sd ex name_to_files st source_file of
        Inl e \<Rightarrow> Inl e
      | Inr issues \<Rightarrow>
          if issues = [] then Inr (0, 0, st)
          else
            case print_relative sd (source_file # report_paths issues) of
              Inl e \<Rightarrow> Inl e
            | Inr u \<Rightarrow>
                Inr (length issues, length (filter is_wrong_format issues),
                     if filter is_wrong_format issues = [] then st
                     else st(source_file :=
                            render 0 (fst (get_content_section (st source_file)))
                              (map fix_span (filter is_wrong_format issues))
                            @ snd (get_content_section (st source_file)))))
   \<and> (\<forall>issues. forward_issues sd ex name_to_files st source_file = Inr issues \<longrightarrow>
         sort_reverse_start (filter is_wrong_format issues) = rev (filter is_wrong_format issues)
         \<and> spans_ok 0 (length (fst (get_content_section (st source_file))))
             (map fix_span (filter is_wrong_format issues)))"
proof -
  obtain cs bs where sec: "get_content_section (st source_file) = (cs, bs)"
    by (cases "get_content_section (st source_file)") auto
  show ?thesis
  proof (cases "file_issues sd ex source_file name_to_files (find_all_links cs)")
    case (Inl e)
    then show ?thesis
      by (simp add: check_and_fix_file_def forward_issues_def sec)
  next
    case (Inr issues)
    have nil: "sort_reverse_start [] = []"
      by (simp add: sort_reverse_start_def)
    from fixable_issues_render [OF Inr]
    have sr: "sort_reverse_start (filter is_wrong_format issues) = rev (filter is_wrong_format issues)"
      and sp: "spans_ok 0 (length cs) (map fix_span (filter is_wrong_format issues))"
      and fr: "foldl apply_fix cs (rev (filter is_wrong_format issues))
          = render 0 cs (map fix_span (filter is_wrong_format issues))"
      by simp_all
    show ?thesis
      by (simp add: check_and_fix_file_def forward_issues_def sec Let_def Inr sr sp fr nil
          split: sum.splits)
  qed
qed


text \<open>
  The page \<open>d/y\<close> of the example: three issues, two fixed, the ambiguous link and
  the Backlinks section kept, the root page untouched.
\<close>

theorem check_and_fix_file_rewrites_once_witness:
  "(case check_and_fix_file ex_root ex_exists [''/'', ''S'', ''d'', ''y.txt'']
           (build_name_index ex_files) True ex_store of
      Inl e \<Rightarrow> ([], [], 0, 0)
    | Inr (issues, fixed, st') \<Rightarrow>
        (st' [''/'', ''S'', ''d'', ''y.txt''], st' [''/'', ''S'', ''x.txt''], issues, fixed))
   = (''see [[e:c|c]] and [[x]] or [[z:x]]\<newline>===== Backlinks =====\<newline>[[q]]\<newline>'',
      ''top\<newline>===== Backlinks =====\<newline>(no backlinks)\<newline>'', 3, 2)"
  apply (subst conjunct1 [OF check_and_fix_file_rewrites_once])
  apply code_simp
  done

section \<open>Formatting and resolving again\<close>

text \<open>
  Claim C8 says that resolving the canonical text of a resolved link gives the same
  target again.  The code does not do so for a target directly in the corpus root
  that is linked from a subdirectory: the path of the canonical text is then the bare
  name, which the resolver looks up in the directory of the source first.  In the
  example corpus the link \<open>:x\<close> of the page \<open>d/y\<close> resolves to the root page \<open>x\<close>; its
  canonical text is \<open>[[x|x]]\<close>, and that resolves to the page \<open>d/x\<close>.  In fix mode
  the forward-link verifier rewrites the link so, and the backlink verifier formats
  the backlink of \<open>d/y\<close> to the root page \<open>x\<close> in the same way.
\<close>

theorem root_target_is_not_resolved_back:
  "resolve_link_target ex_root ex_exists '':x'' [''/'', ''S'', ''d'', ''y.txt'']
       (build_name_index ex_files)
     = Resolved [''/'', ''S'', ''x.txt'']
   \<and> get_correct_link_format ex_root [''/'', ''S'', ''d'', ''y.txt''] [''/'', ''S'', ''x.txt'']
       (Some ''x'')
     = Inr ''[[x|x]]''
   \<and> map m_link_path (find_all_links ''[[x|x]]'') = [''x'']
   \<and> resolve_link_target ex_root ex_exists ''x'' [''/'', ''S'', ''d'', ''y.txt'']
       (build_name_index ex_files)
     = Resolved [''/'', ''S'', ''d'', ''x.txt'']
   \<and> (case check_and_fix_file ex_root ex_exists [''/'', ''S'', ''d'', ''y.txt'']
              (build_name_index ex_files) True (\<lambda>p. ''[[:x|x]]'') of
         Inl e \<Rightarrow> []
       | Inr (issues, fixed, st') \<Rightarrow> st' [''/'', ''S'', ''d'', ''y.txt''])
     = ''[[x|x]]''
   \<and> get_link_format ex_root [''/'', ''S'', ''d'', ''y.txt''] [''/'', ''S'', ''x.txt'']
     = Inr ''[[x|x]]''
   \<and> resolve_link ex_root ex_exists ''x'' [''/'', ''S'', ''d'', ''y.txt'']
       (build_name_index ex_files)
     = Some [''/'', ''S'', ''d'', ''x.txt'']"
  by code_simp

section \<open>The exit codes of the two verifiers\<close>

lemma check_and_fix_file_count:
  assumes "check_and_fix_file sd ex f name_to_files fix_mode st = Inr (n, k, st1)"
  shows "(n = 0 \<longleftrightarrow> forward_issues sd ex name_to_files st f = Inr []) \<and> (n = 0 \<longrightarrow> st1 = st)"
proof -
  obtain cs bs where sec: "get_content_section (st f) = (cs, bs)"
    by (cases "get_content_section (st f)") auto
  show ?thesis
  proof (cases "file_issues sd ex f name_to_files (find_all_links cs)")
    case (Inl e)
    with assms sec show ?thesis
      by (simp add: check_and_fix_file_def)
  next
    case (Inr issues)
    show ?thesis
    proof (cases "issues = []")
      case True
      with assms sec Inr show ?thesis
        by (simp add: check_and_fix_file_def forward_issues_def)
    next
      case False
      with assms sec Inr have "n = length issues"
        by (auto simp: check_and_fix_file_def Let_def split: sum.splits if_splits)
      with False Inr sec show ?thesis
        by (simp add: forward_issues_def)
    qed
  qed
qed

lemma process_files_total:
  assumes "process_files sd ex name_to_files fix_mode fs (ti, tf, fwi, st) = Inr (ti', tf', fwi', st')"
  shows "ti \<le> ti' \<and> (ti' = ti \<longleftrightarrow> (\<forall>f \<in> set fs. forward_issues sd ex name_to_files st f = Inr []))"
  using assms
proof (induction fs arbitrary: ti tf fwi st)
  case Nil
  then show ?case by simp
next
  case (Cons f fs)
  from Cons.prems obtain n k st1 where
    c: "check_and_fix_file sd ex f name_to_files fix_mode st = Inr (n, k, st1)"
    by (cases "check_and_fix_file sd ex f name_to_files fix_mode st") auto
  from check_and_fix_file_count [OF c]
  have cnt: "n = 0 \<longleftrightarrow> forward_issues sd ex name_to_files st f = Inr []"
    and same: "n = 0 \<longrightarrow> st1 = st"
    by simp_all
  show ?case
  proof (cases "n = 0")
    case True
    with same have st1: "st1 = st" by simp
    from Cons.prems c True st1
    have "process_files sd ex name_to_files fix_mode fs (ti, tf, fwi, st) = Inr (ti', tf', fwi', st')"
      by simp
    from Cons.IH [OF this] cnt True show ?thesis
      by simp
  next
    case False
    with Cons.prems c
    have "process_files sd ex name_to_files fix_mode fs (ti + n, tf + k, fwi + 1, st1)
            = Inr (ti', tf', fwi', st')"
      by simp
    from Cons.IH [OF this] have "ti + n \<le> ti'" by simp
    with False cnt show ?thesis
      by auto
  qed
qed

text \<open>
  Claim C5 says that the exit code is 0 when no issue of any kind remains after the
  fix pass, so that a fix-mode run which repaired every issue it found exits with 0.
  The code returns 1 whenever the scan found an issue, repaired or not: with the
  second example store the forward-link verifier finds one issue and fixes it, the
  backlink verifier finds one file to fix and fixes it, and both return 1.  And a
  link that the backlink verifier cannot resolve is no issue for it: where the only
  text of the corpus is the link \<open>nowhere\<close> on the page \<open>d/y\<close>, it lists the link as
  unresolved and returns 0, in fix mode or not.
\<close>

theorem repaired_run_exits_with_1:
  "(case main_forward ex_root ex_exists ex_files True ex_store_fixable of
      Inl e \<Rightarrow> (0, 0, 0)
    | Inr (code, total_issues, total_fixed, st') \<Rightarrow> (code, total_issues, total_fixed))
     = (1, 1, 1)
   \<and> (case main_backlinks remdups ex_root ex_exists ex_files True ex_store_fixable of
      Inl e \<Rightarrow> (0, 0, [])
    | Inr (code, issues, st') \<Rightarrow> (code, length issues, st' [''/'', ''S'', ''e'', ''c.txt'']))
     = (1, 1, ''c\<newline>===== Backlinks =====\<newline>[[d:y|y]]\<newline>'')
   \<and> snd (first_pass ex_root ex_exists (build_name_index ex_files)
             (\<lambda>p. if p = [''/'', ''S'', ''d'', ''y.txt''] then ''[[nowhere]]'' else []) ex_files
             (\<lambda>p. [], []))
     = [([''/'', ''S'', ''d'', ''y.txt''], ''nowhere'')]
   \<and> map (\<lambda>fix_mode. exit_code (main_backlinks remdups ex_root ex_exists ex_files fix_mode
             (\<lambda>p. if p = [''/'', ''S'', ''d'', ''y.txt''] then ''[[nowhere]]'' else [])))
       [False, True]
     = [0, 0]"
  by code_simp

text \<open>
  Claim C5, amended.  For every run of the forward-link verifier and of the backlink
  verifier that ends without an exception, in fix mode or not, the exit code is 0 if
  the scan of the run found no issue, and 1 otherwise, whether or not the fix pass
  repaired what was found.  An issue of the forward-link verifier is a link of the
  content section of a file that is unresolved, ambiguous or not in its canonical
  form; an issue of the backlink verifier is a file that its second pass lists for
  its Backlinks block (a link that it cannot resolve is not one).
\<close>

theorem exit_code_tells_issues_found:
  "(main_forward sd ex files fix_mode st = Inr (code, total_issues, total_fixed, st') \<longrightarrow>
      code = (if \<forall>f \<in> set files. forward_issues sd ex (build_name_index files) st f = Inr []
              then 0 else 1))
   \<and> (main_backlinks set_iter sd ex files fix_mode st = Inr (code', issues, st'') \<longrightarrow>
      issues = backlink_issues set_iter sd ex files st \<and> code' = (if issues = [] then 0 else 1))"
proof (intro conjI impI)
  assume m: "main_forward sd ex files fix_mode st = Inr (code, total_issues, total_fixed, st')"
  then obtain ti tf fwi where
    p: "process_files sd ex (build_name_index files) fix_mode (sort files) (0, 0, 0, st)
          = Inr (ti, tf, fwi, st')"
    and code: "code = (if ti = 0 then 0 else 1)"
    by (auto simp: main_forward_def Let_def split: sum.splits if_splits)
  from process_files_total [OF p]
  have "ti = 0 \<longleftrightarrow> (\<forall>f \<in> set files. forward_issues sd ex (build_name_index files) st f = Inr [])"
    by simp
  with code show "code = (if \<forall>f \<in> set files. forward_issues sd ex (build_name_index files) st f = Inr []
              then 0 else 1)"
    by simp
next
  assume m: "main_backlinks set_iter sd ex files fix_mode st = Inr (code', issues, st'')"
  obtain reverse_links unresolved_links where
    fp: "first_pass sd ex (build_name_index files) st files (\<lambda>p. [], []) = (reverse_links, unresolved_links)"
    by (cases "first_pass sd ex (build_name_index files) st files (\<lambda>p. [], [])") auto
  from m fp show "issues = backlink_issues set_iter sd ex files st"
    by (auto simp: main_backlinks_def backlink_issues_def Let_def split: sum.splits if_splits)
  from m fp show "code' = (if issues = [] then 0 else 1)"
    by (auto simp: main_backlinks_def Let_def split: sum.splits if_splits)
qed


theorem exit_code_tells_issues_found_witness:
  "\<not> (\<forall>f \<in> set ex_files.
        forward_issues ex_root ex_exists (build_name_index ex_files) ex_store_fixable f = Inr [])
   \<and> backlink_issues remdups ex_root ex_exists ex_files ex_store_fixable \<noteq> []"
proof -
  have ev: "(case main_forward ex_root ex_exists ex_files True ex_store_fixable of
               Inl e \<Rightarrow> 0 | Inr (code, rest) \<Rightarrow> code) = (1::nat)"
    by code_simp
  then obtain ti tf st' where
    run: "main_forward ex_root ex_exists ex_files True ex_store_fixable = Inr (1, ti, tf, st')"
    by (cases "main_forward ex_root ex_exists ex_files True ex_store_fixable") auto
  have ev': "(case main_backlinks remdups ex_root ex_exists ex_files True ex_store_fixable of
               Inl e \<Rightarrow> 0 | Inr (code, rest) \<Rightarrow> code) = (1::nat)"
    by code_simp
  then obtain issues st'' where
    run': "main_backlinks remdups ex_root ex_exists ex_files True ex_store_fixable = Inr (1, issues, st'')"
    by (cases "main_backlinks remdups ex_root ex_exists ex_files True ex_store_fixable") auto
  note inst = exit_code_tells_issues_found
    [of ex_root ex_exists ex_files True ex_store_fixable 1 ti tf st' remdups 1 issues st'']
  from inst [THEN conjunct1, THEN mp, OF run]
  have a: "\<not> (\<forall>f \<in> set ex_files.
        forward_issues ex_root ex_exists (build_name_index ex_files) ex_store_fixable f = Inr [])"
    by (metis zero_neq_one)
  from inst [THEN conjunct2, THEN mp, OF run']
  have "issues = backlink_issues remdups ex_root ex_exists ex_files ex_store_fixable"
    and "(1::nat) = (if issues = [] then 0 else 1)"
    by blast+
  then have b: "backlink_issues remdups ex_root ex_exists ex_files ex_store_fixable \<noteq> []"
    by (metis zero_neq_one)
  from a b show ?thesis ..
qed

end
